theory Spec2Isabelle
  imports Main "HOL-Library.Word" "HOL-Library.Sublist"
begin

unbundle bit_operations_syntax

section \<open>The lexer tables of quick-lint-js (lex-tables.h)\<close>

text \<open>
  A shallow embedding of \<^verbatim>\<open>struct lex_tables\<close>: the character classification table,
  the state transition table, the terminal state lookup table and the lookup algorithm
  \<^verbatim>\<open>try_parse_current_token\<close>. The enumerations \<^verbatim>\<open>character_class\<close> and
  \<^verbatim>\<open>state\<close> have underlying type \<^verbatim>\<open>std::uint8_t\<close> and are cast into each other
  by the algorithm, so both are 8-bit words here.
\<close>

type_synonym u8 = "8 word"

subsection \<open>Character classes\<close>

text \<open>
  \<^verbatim>\<open>enum character_class : std::uint8_t\<close>. The enumerators \<^verbatim>\<open>plus\<close>, \<^verbatim>\<open>equal\<close>
  and \<^verbatim>\<open>greater\<close> carry the suffix \<open>_cc\<close>, since HOL has constants of these names.
\<close>

definition bang :: u8 where "bang = 0"
definition percent :: u8 where "percent = 1"
definition ampersand :: u8 where "ampersand = 2"
definition plus_cc :: u8 where "plus_cc = 3"
definition equal_cc :: u8 where "equal_cc = 4"
definition greater_cc :: u8 where "greater_cc = 5"
definition circumflex :: u8 where "circumflex = 6"
definition pipe :: u8 where "pipe = 7"
definition other_character_class :: u8 where "other_character_class = 8"
definition character_class_count :: nat where "character_class_count = 9"

text \<open>The source abbreviates \<^verbatim>\<open>other_character_class\<close> as \<^verbatim>\<open>_\<close> inside the table.\<close>

abbreviation (input) oc :: u8 where "oc \<equiv> other_character_class"

definition character_class_table :: "u8 list" where
  "character_class_table =
  [oc, oc, oc, oc, oc, oc, oc, oc, oc, oc, oc, oc, oc, oc, oc, oc,
   oc, oc, oc, oc, oc, oc, oc, oc, oc, oc, oc, oc, oc, oc, oc, oc,
   oc, bang, oc, oc, oc, percent, ampersand, oc, oc, oc, oc, plus_cc, oc, oc, oc, oc,
   oc, oc, oc, oc, oc, oc, oc, oc, oc, oc, oc, oc, oc, equal_cc, greater_cc, oc,
   oc, oc, oc, oc, oc, oc, oc, oc, oc, oc, oc, oc, oc, oc, oc, oc,
   oc, oc, oc, oc, oc, oc, oc, oc, oc, oc, oc, oc, oc, oc, circumflex, oc,
   oc, oc, oc, oc, oc, oc, oc, oc, oc, oc, oc, oc, oc, oc, oc, oc,
   oc, oc, oc, oc, oc, oc, oc, oc, oc, oc, oc, oc, pipe, oc, oc, oc,
   oc, oc, oc, oc, oc, oc, oc, oc, oc, oc, oc, oc, oc, oc, oc, oc,
   oc, oc, oc, oc, oc, oc, oc, oc, oc, oc, oc, oc, oc, oc, oc, oc,
   oc, oc, oc, oc, oc, oc, oc, oc, oc, oc, oc, oc, oc, oc, oc, oc,
   oc, oc, oc, oc, oc, oc, oc, oc, oc, oc, oc, oc, oc, oc, oc, oc,
   oc, oc, oc, oc, oc, oc, oc, oc, oc, oc, oc, oc, oc, oc, oc, oc,
   oc, oc, oc, oc, oc, oc, oc, oc, oc, oc, oc, oc, oc, oc, oc, oc,
   oc, oc, oc, oc, oc, oc, oc, oc, oc, oc, oc, oc, oc, oc, oc, oc,
   oc, oc, oc, oc, oc, oc, oc, oc, oc, oc, oc, oc, oc, oc, oc, oc]"

text \<open>
  \<^verbatim>\<open>character_class_table[static_cast<std::uint8_t>(c)]\<close>: a \<^typ>\<open>char\<close> is
  one byte, and \<^term>\<open>of_char c :: nat\<close> is its value, below 256.
\<close>

definition character_class :: "char \<Rightarrow> u8" where
  "character_class c = character_class_table ! of_char c"

subsection \<open>States\<close>

definition state_data_bits :: nat where "state_data_bits = 5"
definition state_data_mask :: u8 where "state_data_mask = 31"
definition state_dispatcher_bits :: nat where "state_dispatcher_bits = 3"

text \<open>
  \<^verbatim>\<open>enum state : std::uint8_t\<close>. The initial states are the character classes. The
  other enumerators are \<^verbatim>\<open>n | (d << state_data_bits)\<close>.
\<close>

definition bang_equal :: u8 where
  "bang_equal = 8 OR push_bit state_data_bits 0"
definition ampersand_ampersand :: u8 where
  "ampersand_ampersand = 9 OR push_bit state_data_bits 0"
definition equal_equal :: u8 where
  "equal_equal = 10 OR push_bit state_data_bits 0"
definition greater_greater :: u8 where
  "greater_greater = 11 OR push_bit state_data_bits 0"
definition pipe_pipe :: u8 where
  "pipe_pipe = 12 OR push_bit state_data_bits 0"
definition greater_greater_greater :: u8 where
  "greater_greater_greater = 13 OR push_bit state_data_bits 0"

definition done_percent_equal :: u8 where
  "done_percent_equal = 14 OR push_bit state_data_bits 2"
definition done_ampersand_equal :: u8 where
  "done_ampersand_equal = 15 OR push_bit state_data_bits 2"
definition done_plus_plus :: u8 where
  "done_plus_plus = 16 OR push_bit state_data_bits 2"
definition done_plus_equal :: u8 where
  "done_plus_equal = 17 OR push_bit state_data_bits 2"
definition done_equal_greater :: u8 where
  "done_equal_greater = 18 OR push_bit state_data_bits 2"
definition done_greater_equal :: u8 where
  "done_greater_equal = 19 OR push_bit state_data_bits 2"
definition done_circumflex_equal :: u8 where
  "done_circumflex_equal = 20 OR push_bit state_data_bits 2"
definition done_pipe_equal :: u8 where
  "done_pipe_equal = 21 OR push_bit state_data_bits 2"
definition done_bang_equal_equal :: u8 where
  "done_bang_equal_equal = 22 OR push_bit state_data_bits 2"
definition done_ampersand_ampersand_equal :: u8 where
  "done_ampersand_ampersand_equal = 23 OR push_bit state_data_bits 2"
definition done_equal_equal_equal :: u8 where
  "done_equal_equal_equal = 24 OR push_bit state_data_bits 2"
definition done_greater_greater_equal :: u8 where
  "done_greater_greater_equal = 25 OR push_bit state_data_bits 2"
definition done_pipe_pipe_equal :: u8 where
  "done_pipe_pipe_equal = 26 OR push_bit state_data_bits 2"
definition done_greater_greater_greater_equal :: u8 where
  "done_greater_greater_greater_equal = 27 OR push_bit state_data_bits 2"

text \<open>An unexpected character was detected. The lexer should retract the most recent byte.\<close>

definition retract :: u8 where
  "retract = push_bit state_data_bits 1"

definition input_state_count :: nat where "input_state_count = 14"

definition is_terminal_state :: "u8 \<Rightarrow> bool" where
  "is_terminal_state s = (s > greater_greater_greater)"

text \<open>Precondition in the source: \<open>s\<close> is an initial state.\<close>

definition is_initial_state_terminal :: "u8 \<Rightarrow> bool" where
  "is_initial_state_terminal s = (s \<ge> bang_equal)"

subsection \<open>The transition table\<close>

text \<open>
  \<^verbatim>\<open>transition_table[character_class_count + 1][input_state_count]\<close>, indexed by
  the class of the next byte first and by the current state second. The source
  initialises nine of the ten rows; the tenth is zero-initialised by the language.
\<close>

definition transition_table :: "u8 list list" where
  "transition_table =
  [\<comment> \<open>!\<close>
   [retract, retract, retract, retract, retract, retract, retract, retract, retract,
    retract, retract, retract, retract, retract],
   \<comment> \<open>%\<close>
   [retract, retract, retract, retract, retract, retract, retract, retract, retract,
    retract, retract, retract, retract, retract],
   \<comment> \<open>&\<close>
   [retract, retract, ampersand_ampersand, retract, retract, retract, retract, retract,
    retract, retract, retract, retract, retract, retract],
   \<comment> \<open>+\<close>
   [retract, retract, retract, done_plus_plus, retract, retract, retract, retract, retract,
    retract, retract, retract, retract, retract],
   \<comment> \<open>=\<close>
   [bang_equal, done_percent_equal, done_ampersand_equal, done_plus_equal, equal_equal,
    done_greater_equal, done_circumflex_equal, done_pipe_equal, done_bang_equal_equal,
    done_ampersand_ampersand_equal, done_equal_equal_equal, done_greater_greater_equal,
    done_pipe_pipe_equal, done_greater_greater_greater_equal],
   \<comment> \<open>>\<close>
   [retract, retract, retract, retract, done_equal_greater, greater_greater, retract,
    retract, retract, retract, retract, greater_greater_greater, retract, retract],
   \<comment> \<open>^\<close>
   [retract, retract, retract, retract, retract, retract, retract, retract, retract,
    retract, retract, retract, retract, retract],
   \<comment> \<open>|\<close>
   [retract, retract, retract, retract, retract, retract, retract, pipe_pipe, retract,
    retract, retract, retract, retract, retract],
   \<comment> \<open>(other)\<close>
   [retract, retract, retract, retract, retract, retract, retract, retract, retract,
    retract, retract, retract, retract, retract],
   \<comment> \<open>not written in the source: zero-initialised\<close>
   replicate input_state_count 0]"

subsection \<open>Token types\<close>

text \<open>
  Modelled from the spec: \<^verbatim>\<open>enum class token_type\<close> is declared in token.h, which is
  not among the sources. The token kinds are one for each spelling of the fixed lexicon,
  under the names that \<^verbatim>\<open>state_to_token\<close> gives them, and \<^verbatim>\<open>identifier\<close>, which
  \<^verbatim>\<open>invalid_token_type\<close> names. Each carries the prefix \<open>token_\<close>, since the states
  and the character classes already use the bare names.
\<close>

datatype token_type =
    token_identifier
  | token_bang
  | token_percent
  | token_ampersand
  | token_plus
  | token_equal
  | token_greater
  | token_circumflex
  | token_pipe
  | token_bang_equal
  | token_ampersand_ampersand
  | token_equal_equal
  | token_greater_greater
  | token_pipe_pipe
  | token_greater_greater_greater
  | token_percent_equal
  | token_ampersand_equal
  | token_plus_plus
  | token_plus_equal
  | token_equal_greater
  | token_greater_equal
  | token_circumflex_equal
  | token_pipe_equal
  | token_bang_equal_equal
  | token_ampersand_ampersand_equal
  | token_equal_equal_equal
  | token_greater_greater_equal
  | token_pipe_pipe_equal
  | token_greater_greater_greater_equal

definition invalid_token_type :: token_type where
  "invalid_token_type = token_identifier"

definition state_to_token :: "token_type list" where
  "state_to_token =
  [token_bang,                           \<comment> \<open>!\<close>
   token_percent,                        \<comment> \<open>%\<close>
   token_ampersand,                      \<comment> \<open>&\<close>
   token_plus,                           \<comment> \<open>+\<close>
   token_equal,                          \<comment> \<open>=\<close>
   token_greater,                        \<comment> \<open>>\<close>
   token_circumflex,                     \<comment> \<open>^\<close>
   token_pipe,                           \<comment> \<open>|\<close>
   token_bang_equal,                     \<comment> \<open>!=\<close>
   token_ampersand_ampersand,            \<comment> \<open>&&\<close>
   token_equal_equal,                    \<comment> \<open>==\<close>
   token_greater_greater,                \<comment> \<open>>>\<close>
   token_pipe_pipe,                      \<comment> \<open>||\<close>
   token_greater_greater_greater,        \<comment> \<open>>>>\<close>
   token_percent_equal,                  \<comment> \<open>%=\<close>
   token_ampersand_equal,                \<comment> \<open>&=\<close>
   token_plus_plus,                      \<comment> \<open>++\<close>
   token_plus_equal,                     \<comment> \<open>+=\<close>
   token_equal_greater,                  \<comment> \<open>=>\<close>
   token_greater_equal,                  \<comment> \<open>>=\<close>
   token_circumflex_equal,               \<comment> \<open>^=\<close>
   token_pipe_equal,                     \<comment> \<open>|=\<close>
   token_bang_equal_equal,               \<comment> \<open>!==\<close>
   token_ampersand_ampersand_equal,      \<comment> \<open>&&=\<close>
   token_equal_equal_equal,              \<comment> \<open>===\<close>
   token_greater_greater_equal,          \<comment> \<open>>>=\<close>
   token_pipe_pipe_equal,                \<comment> \<open>||=\<close>
   token_greater_greater_greater_equal   \<comment> \<open>>>>=\<close>
  ]"

subsection \<open>The lexer, as far as the lookup algorithm touches it\<close>

text \<open>
  Modelled from the spec: the class \<^verbatim>\<open>lexer\<close> (lex.h) and the token record (token.h)
  are not among the sources. The specification gives the caller a token record to fill
  with a kind and an end position, and an input cursor; the algorithm reads
  \<^verbatim>\<open>l->input_\<close> and writes \<^verbatim>\<open>l->input_\<close>, \<^verbatim>\<open>l->last_token_.type\<close> and
  \<^verbatim>\<open>l->last_token_.end\<close>. These are the fields \<open>lexer_input\<close>, \<open>lexer_last_token\<close>,
  \<open>tok_type\<close> and \<open>tok_end\<close> below (a field name cannot end in an underscore here).
  Pointers into the input buffer are indices into the buffer, a list of bytes
  (\<^verbatim>\<open>char8\<close> is a byte). The records are extensible: every other field of the lexer
  and of the token lives in the \<open>more\<close> part.
\<close>

record token =
  tok_type :: token_type
  tok_end :: nat

record lexer =
  lexer_input :: nat
  lexer_last_token :: token

text \<open>
  What can go wrong in the C++: a read outside the input buffer or outside a table, a read
  of \<^verbatim>\<open>old_state\<close> before it is assigned, and the two \<^verbatim>\<open>QLJS_ASSERT\<close>s. The
  macro is defined in assert.h, which is not among the sources; as the specification has
  it, a failed assertion ends the call in a debug build.
\<close>

datatype error =
    Out_of_bounds
  | Uninitialized_old_state
  | Assert_new_state_not_retract
  | Assert_new_dispatcher

text \<open>
  The local variables of \<^verbatim>\<open>try_parse_current_token\<close>. \<open>old_state\<close> is declared
  without an initialiser. \<open>iterations\<close> is a ghost variable: it counts how often the block
  at the label \<^verbatim>\<open>transition\<close> has run.
\<close>

record locals =
  input :: nat
  new_state :: u8
  old_state :: "u8 option"
  iterations :: nat

text \<open>
  A call returns its \<^verbatim>\<open>bool\<close>, the lexer as the call leaves it, and the local
  variables as they are at the \<^verbatim>\<open>return\<close>.
\<close>

type_synonym 'a outcome = "error + (bool \<times> 'a lexer_scheme \<times> locals)"

subsection \<open>The lookup algorithm\<close>

text \<open>
  Each label of \<^verbatim>\<open>try_parse_current_token\<close> is a function, each \<^verbatim>\<open>goto\<close> a call.
  In \<^verbatim>\<open>done_retract\<close>, \<^verbatim>\<open>input -= 1\<close> undoes an \<^verbatim>\<open>input += 1\<close>: every
  path to the label has moved \<open>input\<close> forward at least once.
\<close>

definition done_unique_terminal :: "'a lexer_scheme \<Rightarrow> locals \<Rightarrow> 'a outcome" where
  "done_unique_terminal l v =
     (let i = unat (new_state v AND state_data_mask) in
      if i < length state_to_token then
        Inr (True,
             l\<lparr>lexer_last_token :=
                 (lexer_last_token l)\<lparr>tok_type := state_to_token ! i, tok_end := input v\<rparr>,
               lexer_input := input v\<rparr>,
             v)
      else Inl Out_of_bounds)"

definition done_retract :: "'a lexer_scheme \<Rightarrow> locals \<Rightarrow> 'a outcome" where
  "done_retract l v =
     (case old_state v of
        None \<Rightarrow> Inl Uninitialized_old_state
      | Some old \<Rightarrow>
          (let v' = v\<lparr>input := input v - 1, new_state := old\<rparr>;
               new_dispatcher = drop_bit state_data_bits (new_state v')
           in if new_dispatcher = 2 \<or> new_dispatcher = 0
              then done_unique_terminal l v'
              else Inl Assert_new_dispatcher))"

text \<open>
  The build without computed goto: after the block at \<^verbatim>\<open>transition\<close>, a terminal state
  goes to \<^verbatim>\<open>dispatch\<close>, whose \<^verbatim>\<open>switch\<close> has the cases 0, 1 and 2 and no default,
  so that any other value falls through to \<^verbatim>\<open>done_unique_terminal\<close>, the next label.
  The recursion ends because every round moves \<open>input\<close> forward and a read beyond the
  buffer is an error.
\<close>

function transition :: "string \<Rightarrow> 'a lexer_scheme \<Rightarrow> locals \<Rightarrow> 'a outcome"
  and dispatch :: "string \<Rightarrow> 'a lexer_scheme \<Rightarrow> locals \<Rightarrow> 'a outcome"
where
  "transition mem l v =
     (if input v < length mem then
        (let c = unat (character_class (mem ! input v)) in
         if c < length transition_table \<and> unat (new_state v) < input_state_count then
           (let v' = v\<lparr>old_state := Some (new_state v),
                       new_state := transition_table ! c ! unat (new_state v),
                       input := input v + 1,
                       iterations := iterations v + 1\<rparr>
            in if is_terminal_state (new_state v') then dispatch mem l v'
               else transition mem l v')
         else Inl Out_of_bounds)
      else Inl Out_of_bounds)"
| "dispatch mem l v =
     (let d = drop_bit state_data_bits (new_state v) in
      if d = 0 then transition mem l v
      else if d = 1 then done_retract l v
      else done_unique_terminal l v)"
  by pat_completeness auto
termination
  by (relation "measure (\<lambda>x. case x of
          Inl (mem, l, v) \<Rightarrow> 2 * (length mem - input v) + 1
        | Inr (mem, l, v) \<Rightarrow> 2 * (length mem - input v) + 2)") auto

declare transition.simps [simp del] dispatch.simps [simp del]

text \<open>
  The first lookup is special: the character class of the first byte is the initial
  state, so the transition table is not used for it.
\<close>

definition try_parse_current_token :: "string \<Rightarrow> 'a lexer_scheme \<Rightarrow> 'a outcome" where
  "try_parse_current_token mem l =
     (if lexer_input l < length mem then
        (let s = character_class (mem ! lexer_input l) in
         if s \<noteq> retract then
           (let v = \<lparr>input = lexer_input l + 1, new_state = s, old_state = None, iterations = 0\<rparr>
            in if is_initial_state_terminal s then dispatch mem l v
               else transition mem l v)
         else Inl Assert_new_state_not_retract)
      else Inl Out_of_bounds)"

subsection \<open>The build with computed goto\<close>

text \<open>
  With \<^verbatim>\<open>QLJS_LEX_DISPATCH_USE_COMPUTED_GOTO\<close>, the block at \<^verbatim>\<open>transition\<close> ends
  with \<^verbatim>\<open>goto* dispatch_table[new_state >> state_data_bits]\<close>, and so does the branch
  for an initial terminal state. The dispatch table holds the addresses of three labels.
\<close>

datatype label = Transition | Done_retract | Done_unique_terminal

definition dispatch_table :: "label list" where
  "dispatch_table = [Transition, Done_retract, Done_unique_terminal]"

function transition_goto :: "string \<Rightarrow> 'a lexer_scheme \<Rightarrow> locals \<Rightarrow> 'a outcome"
  and computed_goto :: "string \<Rightarrow> 'a lexer_scheme \<Rightarrow> locals \<Rightarrow> 'a outcome"
where
  "transition_goto mem l v =
     (if input v < length mem then
        (let c = unat (character_class (mem ! input v)) in
         if c < length transition_table \<and> unat (new_state v) < input_state_count then
           computed_goto mem l
             (v\<lparr>old_state := Some (new_state v),
                new_state := transition_table ! c ! unat (new_state v),
                input := input v + 1,
                iterations := iterations v + 1\<rparr>)
         else Inl Out_of_bounds)
      else Inl Out_of_bounds)"
| "computed_goto mem l v =
     (let d = unat (drop_bit state_data_bits (new_state v)) in
      if d < length dispatch_table then
        (case dispatch_table ! d of
           Transition \<Rightarrow> transition_goto mem l v
         | Done_retract \<Rightarrow> done_retract l v
         | Done_unique_terminal \<Rightarrow> done_unique_terminal l v)
      else Inl Out_of_bounds)"
  by pat_completeness auto
termination
  by (relation "measure (\<lambda>x. case x of
          Inl (mem, l, v) \<Rightarrow> 2 * (length mem - input v) + 1
        | Inr (mem, l, v) \<Rightarrow> 2 * (length mem - input v) + 2)") auto

declare transition_goto.simps [simp del] computed_goto.simps [simp del]

definition try_parse_current_token_goto :: "string \<Rightarrow> 'a lexer_scheme \<Rightarrow> 'a outcome" where
  "try_parse_current_token_goto mem l =
     (if lexer_input l < length mem then
        (let s = character_class (mem ! lexer_input l) in
         if s \<noteq> retract then
           (let v = \<lparr>input = lexer_input l + 1, new_state = s, old_state = None, iterations = 0\<rparr>
            in if is_initial_state_terminal s then computed_goto mem l v
               else transition_goto mem l v)
         else Inl Assert_new_state_not_retract)
      else Inl Out_of_bounds)"

subsection \<open>The operator lexicon\<close>

text \<open>
  The fixed lexicon of the specification: every operator spelling with its token kind, in
  the order in which the comments of \<^verbatim>\<open>state_to_token\<close> list the spellings.
\<close>

definition lexicon :: "(string \<times> token_type) list" where
  "lexicon =
  [(''!'', token_bang),
   (''%'', token_percent),
   (''&'', token_ampersand),
   (''+'', token_plus),
   (''='', token_equal),
   (''>'', token_greater),
   (''^'', token_circumflex),
   (''|'', token_pipe),
   (''!='', token_bang_equal),
   (''&&'', token_ampersand_ampersand),
   (''=='', token_equal_equal),
   (''>>'', token_greater_greater),
   (''||'', token_pipe_pipe),
   (''>>>'', token_greater_greater_greater),
   (''%='', token_percent_equal),
   (''&='', token_ampersand_equal),
   (''++'', token_plus_plus),
   (''+='', token_plus_equal),
   (''=>'', token_equal_greater),
   (''>='', token_greater_equal),
   (''^='', token_circumflex_equal),
   (''|='', token_pipe_equal),
   (''!=='', token_bang_equal_equal),
   (''&&='', token_ampersand_ampersand_equal),
   (''==='', token_equal_equal_equal),
   (''>>='', token_greater_greater_equal),
   (''||='', token_pipe_pipe_equal),
   (''>>>='', token_greater_greater_greater_equal)]"

definition spellings :: "string list" where
  "spellings = map fst lexicon"

text \<open>
  The byte \<open>b\<close> extends the entry \<open>e\<close> towards a longer entry of the lexicon when some
  entry starts with \<open>e\<close> followed by \<open>b\<close>.
\<close>

definition extends :: "string \<Rightarrow> char \<Rightarrow> bool" where
  "extends e b = list_ex (prefix (e @ [b])) spellings"

text \<open>
  The first \<open>k\<close> bytes of \<open>s\<close> are an entry of the lexicon, and the byte after them does
  not extend it.
\<close>

definition stops_at :: "string \<Rightarrow> nat \<Rightarrow> bool" where
  "stops_at s k = (k < length s \<and> take k s \<in> set spellings \<and> \<not> extends (take k s) (s ! k))"

text \<open>
  The buffer is terminated by a sentinel: at the cursor \<open>p\<close> or after it, the buffer holds
  a byte of the catch-all class, such as the null byte that ends the input of the lexer.
\<close>

definition sentinel_terminated :: "string \<Rightarrow> nat \<Rightarrow> bool" where
  "sentinel_terminated mem p =
     list_ex (\<lambda>c. character_class c = other_character_class) (drop p mem)"

subsection \<open>Outcomes\<close>

text \<open>
  A call is safe when it returns \<^verbatim>\<open>true\<close> or reads beyond the buffer: no assertion
  fails, and \<^verbatim>\<open>old_state\<close> is not read before it is assigned.
\<close>

definition safe :: "'a outcome \<Rightarrow> bool" where
  "safe r = (case r of Inl e \<Rightarrow> e = Out_of_bounds | Inr (b, l', v') \<Rightarrow> b)"

text \<open>
  What a caller observes of a call: the error, or the returned \<^verbatim>\<open>bool\<close>, the input
  cursor, the token kind and the token's end.
\<close>

definition observable :: "'a outcome \<Rightarrow> error + (bool \<times> nat \<times> token_type \<times> nat)" where
  "observable r =
     map_sum id (\<lambda>(b, l', v). (b, lexer_input l', tok_type (lexer_last_token l'),
                               tok_end (lexer_last_token l'))) r"

subsection \<open>Two abbreviations\<close>

text \<open>The entry of the transition table that the block at \<^verbatim>\<open>transition\<close> reads.\<close>

abbreviation (input) table_entry :: "u8 \<Rightarrow> char \<Rightarrow> u8" where
  "table_entry s c \<equiv> transition_table ! unat (character_class c) ! unat s"

text \<open>What \<^verbatim>\<open>done_unique_terminal\<close> writes: the token of table index \<open>t\<close>, ending at \<open>e\<close>.\<close>

abbreviation (input) written :: "'a lexer_scheme \<Rightarrow> nat \<Rightarrow> nat \<Rightarrow> 'a lexer_scheme" where
  "written l t e \<equiv>
     l\<lparr>lexer_last_token := (lexer_last_token l)\<lparr>tok_type := state_to_token ! t, tok_end := e\<rparr>,
       lexer_input := e\<rparr>"

subsection \<open>The state graph\<close>

text \<open>The possibly-incomplete states and the complete states of \<^verbatim>\<open>enum state\<close>.\<close>

definition continuation_states :: "u8 list" where
  "continuation_states =
     [bang_equal, ampersand_ampersand, equal_equal, greater_greater, pipe_pipe,
      greater_greater_greater]"

definition done_states :: "u8 list" where
  "done_states =
     [done_percent_equal, done_ampersand_equal, done_plus_plus, done_plus_equal,
      done_equal_greater, done_greater_equal, done_circumflex_equal, done_pipe_equal,
      done_bang_equal_equal, done_ampersand_ampersand_equal, done_equal_equal_equal,
      done_greater_greater_equal, done_pipe_pipe_equal, done_greater_greater_greater_equal]"

text \<open>
  The transitions of the table that do not retract: the byte class, the current state
  and the target state.
\<close>

definition transitions :: "(nat \<times> nat \<times> u8) list" where
  "transitions =
     [(c, s, transition_table ! c ! s).
        c \<leftarrow> [0..<character_class_count], s \<leftarrow> [0..<input_state_count],
        transition_table ! c ! s \<noteq> retract]"

text \<open>The graph of the automaton after the initial byte: its edges are these transitions.\<close>

definition state_graph :: "(u8 \<times> u8) set" where
  "state_graph = set (map (\<lambda>(c, s, t). (of_nat s, t)) transitions)"

subsection \<open>A lexer to run examples with\<close>

text \<open>A lexer with its cursor at \<open>p\<close>, whose last token is still the invalid one.\<close>

definition lexer_at :: "nat \<Rightarrow> lexer" where
  "lexer_at p =
     \<lparr>lexer_input = p, lexer_last_token = \<lparr>tok_type = invalid_token_type, tok_end = 0\<rparr>\<rparr>"

section \<open>The tables, evaluated\<close>

lemmas class_defs = bang_def percent_def ampersand_def plus_cc_def equal_cc_def greater_cc_def
  circumflex_def pipe_def other_character_class_def

lemmas state_defs = bang_equal_def ampersand_ampersand_def equal_equal_def greater_greater_def
  pipe_pipe_def greater_greater_greater_def done_percent_equal_def done_ampersand_equal_def
  done_plus_plus_def done_plus_equal_def done_equal_greater_def done_greater_equal_def
  done_circumflex_equal_def done_pipe_equal_def done_bang_equal_equal_def
  done_ampersand_ampersand_equal_def done_equal_equal_equal_def done_greater_greater_equal_def
  done_pipe_pipe_equal_def done_greater_greater_greater_equal_def retract_def
  state_data_bits_def

lemma character_class_table_runs:
  "character_class_table =
     replicate 33 8 @ 0 # replicate 3 8 @ 1 # 2 # replicate 4 8 @ 3 # replicate 17 8 @ 4 # 5 #
     replicate 31 8 @ 6 # replicate 29 8 @ 7 # replicate 131 8"
  by (simp add: character_class_table_def class_defs eval_nat_numeral)

lemma character_class_table_nth:
  "n < 256 \<Longrightarrow> character_class_table ! n =
     (if n = 33 then 0 else if n = 37 then 1 else if n = 38 then 2 else if n = 43 then 3
      else if n = 61 then 4 else if n = 62 then 5 else if n = 94 then 6 else if n = 124 then 7
      else 8)"
  unfolding character_class_table_runs
  by (simp add: nth_append nth_Cons') arith

lemma char_eq_iff_of_char: "(c = d) = (of_char c = (of_char d :: nat))"
  by (metis char_of_char)

text \<open>Exactly the bytes of the eight operator characters have a class of their own.\<close>

lemma character_class_eq:
  "character_class c =
     (if c = CHR ''!'' then bang else if c = CHR ''%'' then percent
      else if c = CHR ''&'' then ampersand else if c = CHR ''+'' then plus_cc
      else if c = CHR ''='' then equal_cc else if c = CHR ''>'' then greater_cc
      else if c = CHR ''^'' then circumflex else if c = CHR ''|'' then pipe
      else other_character_class)"
proof -
  have "(of_char c :: nat) < 256" by simp
  then show ?thesis
    by (simp add: character_class_def character_class_table_nth char_eq_iff_of_char class_defs)
qed

lemma input_state_cases:
  assumes "unat (s::u8) < 14"
  shows "s \<in> {0,1,2,3,4,5,6,7,8,9,10,11,12,13}"
proof -
  from assms have "unat s = 0 \<or> unat s = 1 \<or> unat s = 2 \<or> unat s = 3 \<or> unat s = 4 \<or> unat s = 5
    \<or> unat s = 6 \<or> unat s = 7 \<or> unat s = 8 \<or> unat s = 9 \<or> unat s = 10 \<or> unat s = 11
    \<or> unat s = 12 \<or> unat s = 13" by arith
  then show ?thesis by (simp add: word_unat_eq_iff)
qed

lemma transition_table_eq:
  "transition_table =
   [[32, 32, 32, 32, 32, 32, 32, 32, 32, 32, 32, 32, 32, 32],
    [32, 32, 32, 32, 32, 32, 32, 32, 32, 32, 32, 32, 32, 32],
    [32, 32, 9, 32, 32, 32, 32, 32, 32, 32, 32, 32, 32, 32],
    [32, 32, 32, 80, 32, 32, 32, 32, 32, 32, 32, 32, 32, 32],
    [8, 78, 79, 81, 10, 83, 84, 85, 86, 87, 88, 89, 90, 91],
    [32, 32, 32, 32, 82, 11, 32, 32, 32, 32, 32, 13, 32, 32],
    [32, 32, 32, 32, 32, 32, 32, 32, 32, 32, 32, 32, 32, 32],
    [32, 32, 32, 32, 32, 32, 32, 12, 32, 32, 32, 32, 32, 32],
    [32, 32, 32, 32, 32, 32, 32, 32, 32, 32, 32, 32, 32, 32],
    [0, 0, 0, 0, 0, 0, 0, 0, 0, 0, 0, 0, 0, 0]]"
  by (simp add: transition_table_def state_defs input_state_count_def eval_nat_numeral)

lemma table_entry_eq:
  "table_entry s c =
     (if c = CHR ''='' then [8, 78, 79, 81, 10, 83, 84, 85, 86, 87, 88, 89, 90, 91] ! unat s
      else if c = CHR ''>'' then [32, 32, 32, 32, 82, 11, 32, 32, 32, 32, 32, 13, 32, 32] ! unat s
      else if c = CHR ''&'' then [32, 32, 9, 32, 32, 32, 32, 32, 32, 32, 32, 32, 32, 32] ! unat s
      else if c = CHR ''+'' then [32, 32, 32, 80, 32, 32, 32, 32, 32, 32, 32, 32, 32, 32] ! unat s
      else if c = CHR ''|'' then [32, 32, 32, 32, 32, 32, 32, 12, 32, 32, 32, 32, 32, 32] ! unat s
      else [32, 32, 32, 32, 32, 32, 32, 32, 32, 32, 32, 32, 32, 32] ! unat s)"
  by (simp add: character_class_eq class_defs transition_table_eq)

lemma in_spellings:
  "x \<in> set spellings \<longleftrightarrow>
   x \<in> {''!'', ''%'', ''&'', ''+'', ''='', ''>'', ''^'', ''|'', ''!='', ''&&'', ''=='', ''>>'', ''||'',
     ''>>>'', ''%='', ''&='', ''++'', ''+='', ''=>'', ''>='', ''^='', ''|='', ''!=='', ''&&='',
     ''==='', ''>>='', ''||='', ''>>>=''}"
  by (simp add: spellings_def lexicon_def)

lemma spellings_eq:
  "spellings = [''!'', ''%'', ''&'', ''+'', ''='', ''>'', ''^'', ''|'', ''!='', ''&&'', ''=='', ''>>'', ''||'',
     ''>>>'', ''%='', ''&='', ''++'', ''+='', ''=>'', ''>='', ''^='', ''|='', ''!=='', ''&&='',
     ''==='', ''>>='', ''||='', ''>>>='']"
  by (simp add: spellings_def lexicon_def)

lemma table_lengths: "length state_to_token = 28" "length spellings = 28" "length lexicon = 28"
  by (simp_all add: state_to_token_def spellings_def lexicon_def)

text \<open>The token table agrees with the lexicon, index by index.\<close>

lemma lexicon_nth:
  assumes "t < 28"
  shows "lexicon ! t = (spellings ! t, state_to_token ! t)"
proof -
  have "map snd lexicon = state_to_token"
    by (simp add: lexicon_def state_to_token_def)
  then have "snd (lexicon ! t) = state_to_token ! t"
    using assms table_lengths(3) by (metis nth_map)
  moreover have "fst (lexicon ! t) = spellings ! t"
    using assms table_lengths(3) by (simp add: spellings_def)
  ultimately show ?thesis by (simp add: prod_eq_iff)
qed

section \<open>One step of the automaton\<close>

text \<open>
  From an input state \<open>s\<close> (an initial or a possibly-incomplete state) on the byte \<open>c\<close>, the
  table either retracts, and then the spelling of \<open>s\<close> followed by \<open>c\<close> is no entry of the
  lexicon, or it moves to the state whose spelling is that of \<open>s\<close> followed by \<open>c\<close>.
\<close>

lemma table_entry_spelling:
  assumes "unat s < 14"
  shows "(table_entry s c = retract \<and> spellings ! unat s @ [c] \<notin> set spellings) \<or>
         (table_entry s c \<noteq> retract \<and> unat (table_entry s c AND state_data_mask) < 28 \<and>
          spellings ! unat (table_entry s c AND state_data_mask) = spellings ! unat s @ [c] \<and>
          (if is_terminal_state (table_entry s c)
           then drop_bit state_data_bits (table_entry s c) = 2 \<and>
                14 \<le> unat (table_entry s c AND state_data_mask)
           else unat (table_entry s c) < 14))"
proof -
  from assms have s: "s \<in> {0,1,2,3,4,5,6,7,8,9,10,11,12,13}" by (rule input_state_cases)
  show ?thesis
    unfolding table_entry_eq using s
    apply (simp only: insert_iff empty_iff)
    apply (elim disjE)
    by (simp_all add: in_spellings spellings_eq retract_def
        greater_greater_greater_def state_data_bits_def state_data_mask_def is_terminal_state_def)
qed

lemma class_bound: "unat (character_class c) < length transition_table"
  by (simp add: character_class_eq class_defs transition_table_eq)

lemma input_state_bits:
  assumes "unat (s::u8) < 14"
  shows "drop_bit state_data_bits s = 0" "s AND state_data_mask = s" "s \<noteq> retract"
    "\<not> is_terminal_state s"
  using input_state_cases [OF assms]
  by (auto simp: state_data_bits_def state_data_mask_def retract_def is_terminal_state_def
      greater_greater_greater_def)

lemma retract_bits:
  "is_terminal_state retract" "drop_bit state_data_bits retract = 1"
  by (simp_all add: is_terminal_state_def retract_def state_data_bits_def greater_greater_greater_def)

lemma transition_unfold:
  assumes "i < length mem" "unat s < 14"
  shows "transition mem l \<lparr>input = i, new_state = s, old_state = os, iterations = n\<rparr> =
     (let v' = \<lparr>input = Suc i, new_state = table_entry s (mem ! i), old_state = Some s,
                iterations = Suc n\<rparr>
      in if is_terminal_state (table_entry s (mem ! i)) then dispatch mem l v'
         else transition mem l v')"
  using assms class_bound [of "mem ! i"]
  by (subst transition.simps) (simp add: input_state_count_def Let_def)

text \<open>A complete state has no extension in the lexicon.\<close>

lemma done_maximal:
  assumes "14 \<le> t" "t < 28"
  shows "spellings ! t @ [c] \<notin> set spellings"
proof -
  from assms have "t = 14 \<or> t = 15 \<or> t = 16 \<or> t = 17 \<or> t = 18 \<or> t = 19 \<or> t = 20 \<or> t = 21
    \<or> t = 22 \<or> t = 23 \<or> t = 24 \<or> t = 25 \<or> t = 26 \<or> t = 27" by arith
  then show ?thesis
    apply (elim disjE)
    by (simp_all add: in_spellings spellings_eq)
qed

section \<open>The run of the loop\<close>

text \<open>
  Started in an input state \<open>s\<close> at the index \<open>i\<close>, where the spelling of \<open>s\<close> followed by
  the next \<open>j + 1\<close> bytes is no entry of the lexicon, the loop returns after at most \<open>j\<close>
  further bytes of the token: it has consumed \<open>k\<close> of them, and the spelling of \<open>s\<close> with
  these \<open>k\<close> bytes is the entry of index \<open>t\<close>, which the byte after them does not extend.
\<close>

lemma transition_run:
  assumes "unat s < 14" "i + j < length mem"
    and "spellings ! unat s @ take (Suc j) (drop i mem) \<notin> set spellings"
  shows "\<exists>k t v'. k \<le> j \<and> t < 28 \<and>
      transition mem l \<lparr>input = i, new_state = s, old_state = os, iterations = n\<rparr> =
        Inr (True, written l t (i + k), v') \<and>
      spellings ! t = spellings ! unat s @ take k (drop i mem) \<and>
      spellings ! unat s @ take (Suc k) (drop i mem) \<notin> set spellings \<and>
      input v' = i + k \<and> unat (new_state v' AND state_data_mask) = t \<and> new_state v' \<noteq> retract \<and>
      (if t < 14
       then old_state v' = Some (new_state v') \<and> unat (new_state v') = t \<and>
            iterations v' = n + k + 1
       else iterations v' = n + k)"
  using assms
proof (induction j arbitrary: i s os n rule: less_induct)
  case (less j)
  let ?c = "mem ! i"
  let ?t = "table_entry s ?c"
  from less.prems have i: "i < length mem" by simp
  then have dr: "drop i mem = ?c # drop (Suc i) mem" by (simp add: Cons_nth_drop_Suc)
  note bits = input_state_bits [OF less.prems(1)]
  from table_entry_spelling [OF less.prems(1), of ?c] show ?case
  proof (elim disjE conjE)
    assume r: "?t = retract" and nx: "spellings ! unat s @ [?c] \<notin> set spellings"
    let ?v = "\<lparr>input = i, new_state = s, old_state = Some s, iterations = Suc n\<rparr>"
    have "transition mem l \<lparr>input = i, new_state = s, old_state = os, iterations = n\<rparr> =
        Inr (True, written l (unat s) i, ?v)"
      using less.prems(1)
      by (simp add: transition_unfold [OF i less.prems(1)] r retract_bits dispatch.simps
          done_retract_def done_unique_terminal_def bits table_lengths)
    then show ?thesis
      using less.prems(1) nx bits
      by (intro exI [of _ 0] exI [of _ "unat s"] exI [of _ ?v]) (simp add: dr)
  next
    assume nr: "?t \<noteq> retract" and idx: "unat (?t AND state_data_mask) < 28"
      and sp: "spellings ! unat (?t AND state_data_mask) = spellings ! unat s @ [?c]"
      and kind: "if is_terminal_state ?t
           then drop_bit state_data_bits ?t = 2 \<and> 14 \<le> unat (?t AND state_data_mask)
           else unat ?t < 14"
    have "spellings ! unat s @ [?c] \<in> set spellings"
      using idx sp table_lengths(2) by (metis nth_mem)
    with less.prems(3) have j: "0 < j"
      by (cases j) (auto simp: dr)
    then have i1: "Suc i < length mem" and j1: "Suc i + (j - 1) < length mem"
      using less.prems(2) by simp_all
    then have dr1: "drop (Suc i) mem = mem ! Suc i # drop (Suc (Suc i)) mem"
      by (simp add: Cons_nth_drop_Suc)
    show ?thesis
    proof (cases "is_terminal_state ?t")
      case True
      let ?v = "\<lparr>input = Suc i, new_state = ?t, old_state = Some s, iterations = Suc n\<rparr>"
      from True kind have d: "drop_bit state_data_bits ?t = 2"
        and ge: "14 \<le> unat (?t AND state_data_mask)" by simp_all
      have "transition mem l \<lparr>input = i, new_state = s, old_state = os, iterations = n\<rparr> =
          Inr (True, written l (unat (?t AND state_data_mask)) (i + 1), ?v)"
        using idx
        by (simp add: transition_unfold [OF i less.prems(1)] True dispatch.simps d
            done_unique_terminal_def table_lengths)
      moreover have "spellings ! unat s @ take (Suc 1) (drop i mem) \<notin> set spellings"
        using done_maximal [OF ge idx, of "mem ! Suc i"] sp by (simp add: dr dr1)
      ultimately show ?thesis
        using j idx sp nr ge
        by (intro exI [of _ 1] exI [of _ "unat (?t AND state_data_mask)"] exI [of _ ?v])
          (simp add: dr)
    next
      case False
      with kind have t14: "unat ?t < 14" by simp
      have tr: "transition mem l \<lparr>input = i, new_state = s, old_state = os, iterations = n\<rparr> =
          transition mem l \<lparr>input = Suc i, new_state = ?t, old_state = Some s, iterations = Suc n\<rparr>"
        by (simp add: transition_unfold [OF i less.prems(1)] False)
      have sp': "spellings ! unat ?t = spellings ! unat s @ [?c]"
        using sp input_state_bits(2) [OF t14] by simp
      have stop': "spellings ! unat ?t @ take (Suc (j - 1)) (drop (Suc i) mem) \<notin> set spellings"
        using less.prems(3) j by (simp add: sp' dr)
      from less.IH [OF _ t14 j1 stop', of "Some s" "Suc n"] j
      obtain k t v' where k: "k \<le> j - 1" "t < 28"
        and run: "transition mem l \<lparr>input = Suc i, new_state = ?t, old_state = Some s, iterations = Suc n\<rparr> =
            Inr (True, written l t (Suc i + k), v')"
        and rest: "spellings ! t = spellings ! unat ?t @ take k (drop (Suc i) mem)"
          "spellings ! unat ?t @ take (Suc k) (drop (Suc i) mem) \<notin> set spellings"
          "input v' = Suc i + k" "unat (new_state v' AND state_data_mask) = t"
          "new_state v' \<noteq> retract"
          "if t < 14
           then old_state v' = Some (new_state v') \<and> unat (new_state v') = t \<and>
                iterations v' = Suc n + k + 1
           else iterations v' = Suc n + k"
        by auto
      show ?thesis
        using k run rest j
        by (intro exI [of _ "Suc k"] exI [of _ t] exI [of _ v'])
          (simp add: tr sp' dr split: if_splits)
    qed
  qed
qed

section \<open>The whole call\<close>

lemma spellings_classes:
  assumes "x \<in> set spellings" "c \<in> set x"
  shows "character_class c \<noteq> other_character_class"
  using assms by (auto simp: in_spellings character_class_eq class_defs)

text \<open>A byte of an operator class is the initial state whose spelling is that byte.\<close>

lemma operator_class:
  assumes "character_class c \<noteq> other_character_class"
  shows "unat (character_class c) < 14" "spellings ! unat (character_class c) = [c]"
    "\<not> is_initial_state_terminal (character_class c)" "character_class c \<noteq> retract"
  using assms
  by (simp_all add: character_class_eq class_defs spellings_eq is_initial_state_terminal_def
      bang_equal_def retract_def state_data_bits_def word_le_nat_alt split: if_splits)

lemma sentinel_index:
  "sentinel_terminated mem p \<longleftrightarrow>
   (\<exists>q. p \<le> q \<and> q < length mem \<and> character_class (mem ! q) = other_character_class)"
proof
  assume "sentinel_terminated mem p"
  then obtain n where n: "n < length (drop p mem)"
    "character_class (drop p mem ! n) = other_character_class"
    by (auto simp: sentinel_terminated_def list_ex_iff in_set_conv_nth)
  then have "p \<le> p + n \<and> p + n < length mem \<and>
      character_class (mem ! (p + n)) = other_character_class" by simp
  then show "\<exists>q. p \<le> q \<and> q < length mem \<and> character_class (mem ! q) = other_character_class"
    by blast
next
  assume "\<exists>q. p \<le> q \<and> q < length mem \<and> character_class (mem ! q) = other_character_class"
  then obtain q where q: "p \<le> q" "q < length mem"
    "character_class (mem ! q) = other_character_class" by blast
  then have "q - p < length (drop p mem)" "drop p mem ! (q - p) = mem ! q" by simp_all
  then have "mem ! q \<in> set (drop p mem)" by (metis nth_mem)
  with q(3) show "sentinel_terminated mem p"
    by (auto simp: sentinel_terminated_def list_ex_iff)
qed

text \<open>Up to the sentinel, the bytes from the cursor on are no entry of the lexicon.\<close>

lemma sentinel_stop:
  assumes "sentinel_terminated mem p" "character_class (mem ! p) \<noteq> other_character_class"
  shows "\<exists>j. p + Suc j < length mem \<and> take (Suc (Suc j)) (drop p mem) \<notin> set spellings"
proof -
  from assms(1) obtain q where q: "p \<le> q" "q < length mem"
    "character_class (mem ! q) = other_character_class"
    by (auto simp: sentinel_index)
  with assms(2) have pq: "p < q" by (cases "p = q") auto
  define j where "j = q - p - 1"
  with pq have qj: "q = p + Suc j" by simp
  have "q - p < length (take (Suc (Suc j)) (drop p mem))"
    using q(2) qj by simp
  moreover have "take (Suc (Suc j)) (drop p mem) ! (q - p) = mem ! q"
    using q(2) qj by simp
  ultimately have "mem ! q \<in> set (take (Suc (Suc j)) (drop p mem))"
    by (metis nth_mem)
  with q(3) have "take (Suc (Suc j)) (drop p mem) \<notin> set spellings"
    using spellings_classes by blast
  with q(2) qj show ?thesis by blast
qed

lemma try_parse_run:
  assumes "character_class (mem ! lexer_input l) \<noteq> other_character_class"
    and "lexer_input l + Suc j < length mem"
    and "take (Suc (Suc j)) (drop (lexer_input l) mem) \<notin> set spellings"
  shows "\<exists>k t v'. 0 < k \<and> k \<le> Suc j \<and> t < 28 \<and>
      try_parse_current_token mem l = Inr (True, written l t (lexer_input l + k), v') \<and>
      spellings ! t = take k (drop (lexer_input l) mem) \<and>
      take (Suc k) (drop (lexer_input l) mem) \<notin> set spellings \<and>
      input v' = lexer_input l + k \<and> unat (new_state v' AND state_data_mask) = t \<and>
      new_state v' \<noteq> retract \<and>
      (if t < 14
       then old_state v' = Some (new_state v') \<and> unat (new_state v') = t \<and> iterations v' = k
       else Suc (iterations v') = k)"
proof -
  let ?p = "lexer_input l"
  let ?s = "character_class (mem ! ?p)"
  note cls = operator_class [OF assms(1)]
  from assms(2) have p: "?p < length mem" by simp
  then have dr: "drop ?p mem = mem ! ?p # drop (Suc ?p) mem" by (simp add: Cons_nth_drop_Suc)
  have start: "try_parse_current_token mem l =
      transition mem l \<lparr>input = Suc ?p, new_state = ?s, old_state = None, iterations = 0\<rparr>"
    using p cls by (simp add: try_parse_current_token_def)
  have j: "Suc ?p + j < length mem" using assms(2) by simp
  have stop: "spellings ! unat ?s @ take (Suc j) (drop (Suc ?p) mem) \<notin> set spellings"
    using assms(3) by (simp add: cls dr)
  from transition_run [OF cls(1) j stop, of l None 0]
  obtain k t v' where k: "k \<le> j" "t < 28"
    and run: "transition mem l \<lparr>input = Suc ?p, new_state = ?s, old_state = None, iterations = 0\<rparr> =
        Inr (True, written l t (Suc ?p + k), v')"
    and rest: "spellings ! t = spellings ! unat ?s @ take k (drop (Suc ?p) mem)"
      "spellings ! unat ?s @ take (Suc k) (drop (Suc ?p) mem) \<notin> set spellings"
      "input v' = Suc ?p + k" "unat (new_state v' AND state_data_mask) = t"
      "new_state v' \<noteq> retract"
      "if t < 14
       then old_state v' = Some (new_state v') \<and> unat (new_state v') = t \<and>
            iterations v' = 0 + k + 1
       else iterations v' = 0 + k"
    by auto
  show ?thesis
    using k run rest
    by (intro exI [of _ "Suc k"] exI [of _ t] exI [of _ v'])
      (simp add: start cls dr split: if_splits)
qed

text \<open>The lexicon is closed under non-empty prefixes, and no spelling occurs twice.\<close>

lemma spellings_prefix_closed:
  assumes "x \<in> set spellings" "prefix y x" "y \<noteq> []"
  shows "y \<in> set spellings"
proof -
  have "\<forall>x\<in>set spellings. \<forall>y\<in>set (prefixes x). y \<noteq> [] \<longrightarrow> y \<in> set spellings"
    by (simp add: spellings_eq)
  with assms show ?thesis by (metis in_set_prefixes)
qed

lemma extends_iff: "extends e b \<longleftrightarrow> e @ [b] \<in> set spellings"
proof
  assume "extends e b"
  then obtain x where "x \<in> set spellings" "prefix (e @ [b]) x"
    by (auto simp: extends_def list_ex_iff)
  then show "e @ [b] \<in> set spellings"
    using spellings_prefix_closed by blast
next
  assume "e @ [b] \<in> set spellings"
  then show "extends e b"
    by (auto simp: extends_def list_ex_iff)
qed

lemma spellings_distinct: "distinct spellings"
  by (simp add: spellings_eq)

lemma spellings_length:
  assumes "x \<in> set spellings"
  shows "0 < length x" "length x \<le> 4"
  using assms by (auto simp: in_spellings)

lemma stops_at_iff:
  "stops_at s k \<longleftrightarrow> k < length s \<and> take k s \<in> set spellings \<and> take (Suc k) s \<notin> set spellings"
  by (auto simp: stops_at_def extends_iff take_Suc_conv_app_nth)

text \<open>At most one length is a stopping point, since the lexicon is closed under prefixes.\<close>

lemma stops_at_unique:
  assumes "stops_at s k" "stops_at s n"
  shows "k = n"
proof -
  have le: "a \<le> b" if a: "stops_at s a" and b: "stops_at s b" for a b
  proof (rule ccontr)
    assume "\<not> a \<le> b"
    then have "Suc b \<le> a" by simp
    then have "prefix (take (Suc b) s) (take a s)"
      by (metis min.absorb1 take_is_prefix take_take)
    moreover have "take (Suc b) s \<noteq> []" using b by (auto simp: stops_at_iff)
    moreover have "take a s \<in> set spellings" using a by (simp add: stops_at_iff)
    ultimately have "take (Suc b) s \<in> set spellings"
      using spellings_prefix_closed by blast
    with b show False by (simp add: stops_at_iff)
  qed
  from le [OF assms] le [OF assms(2) assms(1)] show ?thesis by simp
qed

lemma input_state_spelling_length:
  assumes "t < 14"
  shows "length (spellings ! t) \<le> 3"
proof -
  from assms have "t = 0 \<or> t = 1 \<or> t = 2 \<or> t = 3 \<or> t = 4 \<or> t = 5 \<or> t = 6 \<or> t = 7
    \<or> t = 8 \<or> t = 9 \<or> t = 10 \<or> t = 11 \<or> t = 12 \<or> t = 13" by arith
  then show ?thesis
    by (elim disjE) (simp_all add: spellings_eq)
qed

text \<open>
  The result of a call at an operator byte, when the bytes from the cursor on leave the
  lexicon after at most \<open>j + 2\<close> of them: the token of index \<open>t\<close>, of \<open>k\<close> bytes.
\<close>

lemma try_parse_result:
  assumes "character_class (mem ! lexer_input l) \<noteq> other_character_class"
    and "lexer_input l + Suc j < length mem"
    and "take (Suc (Suc j)) (drop (lexer_input l) mem) \<notin> set spellings"
  shows "\<exists>k t v. t < 28 \<and>
      try_parse_current_token mem l = Inr (True, written l t (lexer_input l + k), v) \<and>
      lexicon ! t = (take k (drop (lexer_input l) mem), state_to_token ! t) \<and>
      stops_at (drop (lexer_input l) mem) k \<and> 0 < k \<and> k \<le> 4 \<and>
      input v = lexer_input l + k \<and> new_state v \<noteq> retract \<and>
      (if t < 14
       then old_state v = Some (new_state v) \<and> unat (new_state v) = t \<and> iterations v = k
       else Suc (iterations v) = k) \<and>
      iterations v \<le> 3"
proof -
  let ?s = "drop (lexer_input l) mem"
  from try_parse_run [OF assms]
  obtain k t v where k: "0 < k" "k \<le> Suc j" and t: "t < 28"
    and run: "try_parse_current_token mem l = Inr (True, written l t (lexer_input l + k), v)"
    and sp: "spellings ! t = take k ?s" and nx: "take (Suc k) ?s \<notin> set spellings"
    and rest: "input v = lexer_input l + k" "new_state v \<noteq> retract"
      "if t < 14
       then old_state v = Some (new_state v) \<and> unat (new_state v) = t \<and> iterations v = k
       else Suc (iterations v) = k"
    by blast
  from k assms(2) have len: "k < length ?s" by simp
  have mem: "take k ?s \<in> set spellings"
    using t sp table_lengths(2) by (metis nth_mem)
  have "length (take k ?s) = k" using len by simp
  with spellings_length(2) [OF mem] have k4: "k \<le> 4" by simp
  have it: "iterations v \<le> 3"
  proof (cases "t < 14")
    case True
    with input_state_spelling_length [of t] sp len rest(3) show ?thesis by simp
  next
    case False
    with rest(3) k4 show ?thesis by simp
  qed
  have "stops_at ?s k" using len mem nx by (simp add: stops_at_iff)
  with t run sp k k4 rest it lexicon_nth [OF t] show ?thesis
    by (intro exI [of _ k] exI [of _ t] exI [of _ v]) simp
qed

text \<open>The same for a buffer that a sentinel terminates.\<close>

lemma try_parse_sentinel:
  assumes "sentinel_terminated mem (lexer_input l)"
    and "character_class (mem ! lexer_input l) \<noteq> other_character_class"
  shows "\<exists>k t v. t < 28 \<and>
      try_parse_current_token mem l = Inr (True, written l t (lexer_input l + k), v) \<and>
      lexicon ! t = (take k (drop (lexer_input l) mem), state_to_token ! t) \<and>
      stops_at (drop (lexer_input l) mem) k \<and> 0 < k \<and> k \<le> 4 \<and>
      input v = lexer_input l + k \<and> new_state v \<noteq> retract \<and>
      (if t < 14
       then old_state v = Some (new_state v) \<and> unat (new_state v) = t \<and> iterations v = k
       else Suc (iterations v) = k) \<and>
      iterations v \<le> 3"
proof -
  from sentinel_stop [OF assms] obtain j where
    "lexer_input l + Suc j < length mem"
    "take (Suc (Suc j)) (drop (lexer_input l) mem) \<notin> set spellings" by blast
  from try_parse_result [OF assms(2) this] show ?thesis .
qed

text \<open>The same for an entry of the lexicon followed by a byte that does not extend it.\<close>

lemma try_parse_entry:
  assumes "(E, kind) \<in> set lexicon" "drop (lexer_input l) mem = E @ b # rest" "\<not> extends E b"
  shows "\<exists>t v. t < 28 \<and> lexicon ! t = (E, kind) \<and>
      try_parse_current_token mem l = Inr (True, written l t (lexer_input l + length E), v) \<and>
      state_to_token ! t = kind \<and>
      input v = lexer_input l + length E \<and> new_state v \<noteq> retract \<and>
      (if t < 14
       then old_state v = Some (new_state v) \<and> unat (new_state v) = t \<and>
            iterations v = length E
       else Suc (iterations v) = length E)"
proof -
  let ?s = "drop (lexer_input l) mem"
  from assms(1) have E: "E \<in> set spellings" by (force simp: spellings_def)
  then have ne: "E \<noteq> []" using spellings_length(1) by fastforce
  have len: "length ?s = length E + Suc (length rest)" by (simp add: assms(2))
  then have p: "lexer_input l < length mem" by simp
  then have "mem ! lexer_input l = hd ?s" by (simp add: hd_drop_conv_nth)
  also have "\<dots> = hd E" using ne by (simp add: assms(2))
  finally have "mem ! lexer_input l \<in> set E" using ne by simp
  then have cls: "character_class (mem ! lexer_input l) \<noteq> other_character_class"
    using E spellings_classes by blast
  obtain j where j: "length E = Suc j" using ne by (cases E) auto
  have bound: "lexer_input l + Suc j < length mem" using len j by simp
  have tk: "take (Suc (Suc j)) ?s = E @ [b]" using j by (simp add: assms(2))
  then have stop: "take (Suc (Suc j)) ?s \<notin> set spellings"
    using assms(3) by (simp add: extends_iff)
  have here: "stops_at ?s (length E)"
    using E stop j tk len by (simp add: stops_at_iff assms(2))
  from try_parse_result [OF cls bound stop]
  obtain k t v where t: "t < 28"
    and run: "try_parse_current_token mem l = Inr (True, written l t (lexer_input l + k), v)"
    and lx: "lexicon ! t = (take k ?s, state_to_token ! t)"
    and st: "stops_at ?s k"
    and rest: "input v = lexer_input l + k" "new_state v \<noteq> retract"
      "if t < 14
       then old_state v = Some (new_state v) \<and> unat (new_state v) = t \<and> iterations v = k
       else Suc (iterations v) = k"
    by blast
  from stops_at_unique [OF st here] have k: "k = length E" .
  then have lx': "lexicon ! t = (E, state_to_token ! t)" using lx by (simp add: assms(2))
  then have "(E, state_to_token ! t) \<in> set lexicon"
    using t table_lengths(3) by (metis nth_mem)
  moreover have "distinct (map fst lexicon)"
    using spellings_distinct by (simp add: spellings_def)
  ultimately have kind: "state_to_token ! t = kind"
    using assms(1) by (metis eq_key_imp_eq_value)
  with t run lx' rest k show ?thesis
    by (intro exI [of _ t] exI [of _ v]) simp
qed

section \<open>What goes wrong, and what never does\<close>

lemma transition_dispatch_safe:
  shows "unat (new_state v) < 14 \<Longrightarrow> safe (transition mem l v)"
    and "new_state v = retract \<and> (\<exists>s. old_state v = Some s \<and> unat s < 14) \<or>
         drop_bit state_data_bits (new_state v) = 2 \<and>
           unat (new_state v AND state_data_mask) < 28 \<or>
         unat (new_state v) < 14 \<Longrightarrow> safe (dispatch mem l v)"
proof (induction mem l v and mem l v rule: transition_dispatch.induct)
  case (1 mem l v)
  show ?case
  proof (cases "input v < length mem")
    case False
    then show ?thesis by (subst transition.simps) (simp add: safe_def)
  next
    case True
    define c where "c = unat (character_class (mem ! input v))"
    define v' where "v' = v\<lparr>old_state := Some (new_state v),
        new_state := transition_table ! c ! unat (new_state v),
        input := input v + 1, iterations := iterations v + 1\<rparr>"
    have b: "c < length transition_table \<and> unat (new_state v) < input_state_count"
      using class_bound "1.prems" by (simp add: c_def input_state_count_def)
    have unf: "transition mem l v =
        (if is_terminal_state (new_state v') then dispatch mem l v' else transition mem l v')"
      using True b by (subst transition.simps) (simp add: c_def v'_def Let_def)
    have ns: "new_state v' = table_entry (new_state v) (mem ! input v)"
      and os: "old_state v' = Some (new_state v)"
      by (simp_all add: v'_def c_def)
    note step = table_entry_spelling [OF "1.prems", of "mem ! input v", folded ns]
    show ?thesis
    proof (cases "is_terminal_state (new_state v')")
      case t: True
      have "new_state v' = retract \<and> (\<exists>s. old_state v' = Some s \<and> unat s < 14) \<or>
          drop_bit state_data_bits (new_state v') = 2 \<and>
            unat (new_state v' AND state_data_mask) < 28 \<or>
          unat (new_state v') < 14"
        using step t os "1.prems" by auto
      from "1.IH"(1) [OF True c_def b v'_def t this] unf t show ?thesis by simp
    next
      case f: False
      have "unat (new_state v') < 14"
        using step f retract_bits(1) by auto
      from "1.IH"(2) [OF True c_def b v'_def f this] unf f show ?thesis by simp
    qed
  qed
next
  case (2 mem l v)
  define d where "d = drop_bit state_data_bits (new_state v)"
  show ?case
  proof (cases "d = 0")
    case True
    with "2.prems" have "unat (new_state v) < 14"
      by (auto simp: d_def retract_bits)
    from "2.IH" [OF d_def True this] True show ?thesis
      by (subst dispatch.simps) (simp add: d_def Let_def)
  next
    case False
    show ?thesis
    proof (cases "d = 1")
      case True
      with "2.prems" obtain s where s: "old_state v = Some s" "unat s < 14"
        using input_state_bits(1) [of "new_state v"] by (auto simp: d_def)
      have "safe (done_retract l v)"
        using s input_state_bits [OF s(2)]
        by (simp add: done_retract_def done_unique_terminal_def table_lengths safe_def)
      with True show ?thesis
        by (subst dispatch.simps) (simp add: d_def Let_def)
    next
      case d1: False
      with False "2.prems" have "unat (new_state v AND state_data_mask) < 28"
        using input_state_bits(1) [of "new_state v"] by (auto simp: d_def retract_bits)
      then have "safe (done_unique_terminal l v)"
        by (simp add: done_unique_terminal_def table_lengths safe_def)
      with False d1 show ?thesis
        by (subst dispatch.simps) (simp add: d_def Let_def)
    qed
  qed
qed

lemma class_range: "unat (character_class c) < 14" "character_class c \<noteq> retract"
  by (simp_all add: character_class_eq class_defs retract_def state_data_bits_def)

lemma try_parse_safe: "safe (try_parse_current_token mem l)"
proof (cases "lexer_input l < length mem")
  case False
  then show ?thesis by (simp add: try_parse_current_token_def safe_def)
next
  case True
  let ?s = "character_class (mem ! lexer_input l)"
  let ?v = "\<lparr>input = lexer_input l + 1, new_state = ?s, old_state = None, iterations = 0\<rparr>"
  have "safe (transition mem l ?v)" "safe (dispatch mem l ?v)"
    using transition_dispatch_safe [of ?v mem l] class_range(1) [of "mem ! lexer_input l"]
    by simp_all
  with True class_range(2) show ?thesis
    by (simp add: try_parse_current_token_def Let_def)
qed

text \<open>What a run reports does not depend on the lexer it is given.\<close>

lemma transition_dispatch_observable:
  shows "observable (transition mem l v) = observable (transition mem l2 v)"
    and "observable (dispatch mem l v) = observable (dispatch mem l2 v)"
proof (induction mem l v and mem l v rule: transition_dispatch.induct)
  case (1 mem l v)
  define c where "c = unat (character_class (mem ! input v))"
  define v' where "v' = v\<lparr>old_state := Some (new_state v),
      new_state := transition_table ! c ! unat (new_state v),
      input := input v + 1, iterations := iterations v + 1\<rparr>"
  show ?case
  proof (cases "input v < length mem \<and> c < length transition_table \<and>
      unat (new_state v) < input_state_count")
    case False
    then show ?thesis
      by (auto simp: transition.simps [of mem l v] transition.simps [of mem l2 v] c_def
          observable_def)
  next
    case True
    then have i: "input v < length mem"
      and b: "c < length transition_table \<and> unat (new_state v) < input_state_count"
      by simp_all
    have unf1: "transition mem l v =
        (if is_terminal_state (new_state v') then dispatch mem l v' else transition mem l v')"
      using True by (subst transition.simps) (simp add: c_def v'_def Let_def)
    have unf2: "transition mem l2 v =
        (if is_terminal_state (new_state v') then dispatch mem l2 v' else transition mem l2 v')"
      using True by (subst transition.simps) (simp add: c_def v'_def Let_def)
    show ?thesis
    proof (cases "is_terminal_state (new_state v')")
      case t: True
      from "1.IH"(1) [OF i c_def b v'_def t] t show ?thesis by (simp add: unf1 unf2)
    next
      case f: False
      from "1.IH"(2) [OF i c_def b v'_def f] f show ?thesis by (simp add: unf1 unf2)
    qed
  qed
next
  case (2 mem l v)
  have "observable (done_unique_terminal l w) = observable (done_unique_terminal l2 w)" for w
    by (simp add: done_unique_terminal_def observable_def Let_def)
  moreover from this
  have "observable (done_retract l v) = observable (done_retract l2 v)"
    by (simp add: done_retract_def observable_def Let_def split: option.splits)
  ultimately show ?case
    using 2 by (simp add: dispatch.simps [of mem l v] dispatch.simps [of mem l2 v] Let_def)
qed

lemma try_parse_no_assert:
  "try_parse_current_token mem l \<noteq> Inl Assert_new_state_not_retract"
  "try_parse_current_token mem l \<noteq> Inl Assert_new_dispatcher"
  "try_parse_current_token mem l \<noteq> Inl Uninitialized_old_state"
  using try_parse_safe [of mem l] by (auto simp: safe_def)

section \<open>The two builds agree\<close>

text \<open>
  The states that the loop can hold are the retract sentinel, the complete states and the
  input states; on these, the dispatch table of the build with computed goto and the
  \<^verbatim>\<open>switch\<close> of the other build jump to the same labels. What is proved below of
  \<^verbatim>\<open>try_parse_current_token\<close> therefore holds of both builds.
\<close>

lemma builds_agree_loop:
  shows "unat (new_state v) < 14 \<Longrightarrow> transition_goto mem l v = transition mem l v"
    and "new_state v = retract \<or> drop_bit state_data_bits (new_state v) = 2 \<or>
         unat (new_state v) < 14 \<Longrightarrow> computed_goto mem l v = dispatch mem l v"
proof (induction mem l v and mem l v rule: transition_goto_computed_goto.induct)
  case (1 mem l v)
  show ?case
  proof (cases "input v < length mem")
    case False
    then show ?thesis by (simp add: transition.simps [of mem l v] transition_goto.simps [of mem l v])
  next
    case True
    define c where "c = unat (character_class (mem ! input v))"
    define v' where "v' = v\<lparr>old_state := Some (new_state v),
        new_state := transition_table ! c ! unat (new_state v),
        input := input v + 1, iterations := iterations v + 1\<rparr>"
    have b: "c < length transition_table \<and> unat (new_state v) < input_state_count"
      using class_bound "1.prems" by (simp add: c_def input_state_count_def)
    have ns: "new_state v' = table_entry (new_state v) (mem ! input v)"
      by (simp add: v'_def c_def)
    note step = table_entry_spelling [OF "1.prems", of "mem ! input v", folded ns]
    have q: "new_state v' = retract \<or> drop_bit state_data_bits (new_state v') = 2 \<or>
        unat (new_state v') < 14"
      using step by (auto split: if_splits)
    have unf: "transition mem l v =
        (if is_terminal_state (new_state v') then dispatch mem l v' else transition mem l v')"
      using True b by (subst transition.simps) (simp add: c_def v'_def Let_def)
    have "transition_goto mem l v = computed_goto mem l v'"
      using True b by (subst transition_goto.simps) (simp add: c_def v'_def Let_def)
    also have "\<dots> = dispatch mem l v'"
      using "1.IH" [OF True c_def b, folded v'_def] q by simp
    also have "\<dots> = transition mem l v"
    proof (cases "is_terminal_state (new_state v')")
      case t: True
      then show ?thesis by (simp add: unf)
    next
      case f: False
      with step have "unat (new_state v') < 14" using retract_bits(1) by auto
      then have "dispatch mem l v' = transition mem l v'"
        using input_state_bits(1) by (simp add: dispatch.simps)
      with f show ?thesis by (simp add: unf)
    qed
    finally show ?thesis .
  qed
next
  case (2 mem l v)
  define d where "d = unat (drop_bit state_data_bits (new_state v))"
  from "2.prems" consider (r) "new_state v = retract" | (t) "drop_bit state_data_bits (new_state v) = 2"
    | (c) "unat (new_state v) < 14" by blast
  then show ?case
  proof cases
    case r
    then show ?thesis
      by (simp add: computed_goto.simps dispatch.simps retract_bits dispatch_table_def)
  next
    case t
    then show ?thesis
      by (simp add: computed_goto.simps dispatch.simps dispatch_table_def)
  next
    case c
    then have d0: "drop_bit state_data_bits (new_state v) = 0" by (rule input_state_bits(1))
    then have "d < length dispatch_table" "dispatch_table ! d = Transition"
      by (simp_all add: d_def dispatch_table_def)
    from "2.IH" [OF d_def this c] d0 show ?thesis
      by (simp add: computed_goto.simps [of mem l v] dispatch.simps [of mem l v] dispatch_table_def)
  qed
qed

lemma builds_agree: "try_parse_current_token_goto mem l = try_parse_current_token mem l"
proof -
  let ?s = "character_class (mem ! lexer_input l)"
  let ?v = "\<lparr>input = lexer_input l + 1, new_state = ?s, old_state = None, iterations = 0\<rparr>"
  have "transition_goto mem l ?v = transition mem l ?v"
    "computed_goto mem l ?v = dispatch mem l ?v"
    using builds_agree_loop [of ?v mem l] class_range(1) [of "mem ! lexer_input l"]
    by simp_all
  then show ?thesis
    by (simp add: try_parse_current_token_goto_def try_parse_current_token_def Let_def)
qed

section \<open>The shape of the state graph\<close>

lemma transitions_eq:
  "transitions =
     [(2, 2, 9), (3, 3, 80),
      (4, 0, 8), (4, 1, 78), (4, 2, 79), (4, 3, 81), (4, 4, 10), (4, 5, 83), (4, 6, 84),
      (4, 7, 85), (4, 8, 86), (4, 9, 87), (4, 10, 88), (4, 11, 89), (4, 12, 90), (4, 13, 91),
      (5, 4, 82), (5, 5, 11), (5, 11, 13), (7, 7, 12)]"
proof -
  have "[0..<character_class_count] = [0, 1, 2, 3, 4, 5, 6, 7, 8]"
    "[0..<input_state_count] = [0, 1, 2, 3, 4, 5, 6, 7, 8, 9, 10, 11, 12, 13]"
    by (simp_all add: character_class_count_def input_state_count_def upt_rec)
  then show ?thesis
    by (simp add: transitions_def transition_table_eq retract_def state_data_bits_def)
qed

lemma in_transitions:
  "(c, s, t) \<in> set transitions \<longleftrightarrow>
   c < character_class_count \<and> s < input_state_count \<and> t = transition_table ! c ! s \<and>
   t \<noteq> retract"
  by (auto simp: transitions_def)

lemma targets_distinct: "distinct (map (\<lambda>(c, s, t). t) transitions)"
  by (simp add: transitions_eq)

lemma targets_eq:
  "set (map (\<lambda>(c, s, t). t) transitions) = set (continuation_states @ done_states)"
  by (auto simp: transitions_eq continuation_states_def done_states_def state_defs)

text \<open>Every edge leads to a state of a greater index: the graph has no cycle.\<close>

lemma edges_increase:
  assumes "(s, t) \<in> state_graph"
  shows "unat (s AND state_data_mask) < unat (t AND state_data_mask)"
  using assms by (auto simp: state_graph_def transitions_eq state_data_mask_def)

lemma state_graph_acyclic: "acyclic state_graph"
proof -
  have "acyclic (state_graph\<inverse>)"
    by (rule acyclicI_order [where f = "\<lambda>s. unat (s AND state_data_mask)"])
      (simp add: edges_increase)
  then show ?thesis by simp
qed

text \<open>Two transitions with the same target are the same transition.\<close>

lemma transitions_inj:
  assumes "(c, s, t) \<in> set transitions" "(c', s', t) \<in> set transitions"
  shows "c = c' \<and> s = s'"
proof -
  have "inj_on (\<lambda>(c, s, t). t) (set transitions)"
    using targets_distinct by (simp add: distinct_map)
  from inj_onD [OF this _ assms] show ?thesis by simp
qed

lemma longest_spelling: "Max (length ` set spellings) = 4"
proof (rule Max_eqI)
  show "finite (length ` set spellings)" by simp
  show "y \<le> 4" if "y \<in> length ` set spellings" for y
    using that spellings_length(2) by auto
  show "4 \<in> length ` set spellings"
    by (rule image_eqI [where x = "''>>>=''"]) (simp_all add: in_spellings)
qed

section \<open>Maximal munch and bounded consumption\<close>

text \<open>
  Claim C1. For every sentinel-terminated input buffer whose first byte classifies to one
  of the eight operator classes, the length \<open>n\<close> that \<^verbatim>\<open>try_parse_current_token\<close>
  consumes is the greatest \<open>k\<close> such that the first \<open>k\<close> bytes at the cursor are an entry of
  the lexicon and the byte after them does not extend that entry to a longer entry.
\<close>

theorem maximal_munch:
  assumes "sentinel_terminated mem (lexer_input l)"
    and "character_class (mem ! lexer_input l) \<in>
      {bang, percent, ampersand, plus_cc, equal_cc, greater_cc, circumflex, pipe}"
  shows "\<exists>l' v n. try_parse_current_token mem l = Inr (True, l', v) \<and>
      lexer_input l' = lexer_input l + n \<and>
      stops_at (drop (lexer_input l) mem) n \<and>
      (\<forall>k. stops_at (drop (lexer_input l) mem) k \<longrightarrow> k \<le> n)"
proof -
  from assms(2) have cls: "character_class (mem ! lexer_input l) \<noteq> other_character_class"
    by (auto simp: class_defs)
  from try_parse_sentinel [OF assms(1) cls]
  obtain n t v where
    run: "try_parse_current_token mem l = Inr (True, written l t (lexer_input l + n), v)"
    and st: "stops_at (drop (lexer_input l) mem) n"
    by blast
  have "k \<le> n" if "stops_at (drop (lexer_input l) mem) k" for k
    using stops_at_unique [OF that st] by simp
  with run st show ?thesis
    by (intro exI [of _ "written l t (lexer_input l + n)"] exI [of _ v] exI [of _ n]) simp
qed

theorem maximal_munch_witness:
  "sentinel_terminated (''a >>= b'' @ [CHR 0x00]) (lexer_input (lexer_at 2)) \<and>
   character_class ((''a >>= b'' @ [CHR 0x00]) ! lexer_input (lexer_at 2)) \<in>
     {bang, percent, ampersand, plus_cc, equal_cc, greater_cc, circumflex, pipe} \<and>
   (\<exists>l' v n. try_parse_current_token (''a >>= b'' @ [CHR 0x00]) (lexer_at 2) = Inr (True, l', v) \<and>
      lexer_input l' = lexer_input (lexer_at 2) + n \<and>
      stops_at (drop (lexer_input (lexer_at 2)) (''a >>= b'' @ [CHR 0x00])) n \<and>
      (\<forall>k. stops_at (drop (lexer_input (lexer_at 2)) (''a >>= b'' @ [CHR 0x00])) k \<longrightarrow> k \<le> n))"
proof -
  have h1: "sentinel_terminated (''a >>= b'' @ [CHR 0x00]) (lexer_input (lexer_at 2))"
    by (simp add: sentinel_terminated_def lexer_at_def character_class_eq class_defs)
  have h2: "character_class ((''a >>= b'' @ [CHR 0x00]) ! lexer_input (lexer_at 2)) \<in>
     {bang, percent, ampersand, plus_cc, equal_cc, greater_cc, circumflex, pipe}"
    by (simp add: lexer_at_def character_class_eq)
  from h1 h2 maximal_munch [OF h1 h2] show ?thesis by (intro conjI)
qed

text \<open>
  Claim C6. For every sentinel-terminated input buffer whose first byte classifies to a
  class other than the catch-all class, the number \<open>n\<close> of bytes that the call consumes
  satisfies \<open>1 \<le> n \<le> 4\<close>, and 4 is the length of the longest spelling of the lexicon,
  \<^verbatim>\<open>>>>=\<close>.
\<close>

theorem bounded_consumption:
  assumes "sentinel_terminated mem (lexer_input l)"
    and "character_class (mem ! lexer_input l) \<noteq> other_character_class"
  shows "\<exists>l' v n. try_parse_current_token mem l = Inr (True, l', v) \<and>
      lexer_input l' = lexer_input l + n \<and> 1 \<le> n \<and> n \<le> 4 \<and>
      Max (length ` set spellings) = 4 \<and> ''>>>='' \<in> set spellings \<and> length ''>>>='' = 4"
proof -
  from try_parse_sentinel [OF assms]
  obtain n t v where
    "try_parse_current_token mem l = Inr (True, written l t (lexer_input l + n), v)"
    "0 < n" "n \<le> 4"
    by blast
  then show ?thesis
    by (intro exI [of _ "written l t (lexer_input l + n)"] exI [of _ v] exI [of _ n])
      (simp add: longest_spelling in_spellings)
qed

theorem bounded_consumption_witness:
  "sentinel_terminated (''>>>=>>>='' @ [CHR 0x00]) (lexer_input (lexer_at 0)) \<and>
   character_class ((''>>>=>>>='' @ [CHR 0x00]) ! lexer_input (lexer_at 0)) \<noteq>
     other_character_class \<and>
   (\<exists>l' v n. try_parse_current_token (''>>>=>>>='' @ [CHR 0x00]) (lexer_at 0) = Inr (True, l', v) \<and>
      lexer_input l' = lexer_input (lexer_at 0) + n \<and> 1 \<le> n \<and> n \<le> 4 \<and>
      Max (length ` set spellings) = 4 \<and> ''>>>='' \<in> set spellings \<and> length ''>>>='' = 4)"
proof -
  have h1: "sentinel_terminated (''>>>=>>>='' @ [CHR 0x00]) (lexer_input (lexer_at 0))"
    by (simp add: sentinel_terminated_def lexer_at_def character_class_eq class_defs)
  have h2: "character_class ((''>>>=>>>='' @ [CHR 0x00]) ! lexer_input (lexer_at 0)) \<noteq>
     other_character_class"
    by (simp add: lexer_at_def character_class_eq class_defs)
  from h1 h2 bounded_consumption [OF h1 h2] show ?thesis by (intro conjI)
qed

text \<open>
  Claim C8. For every sentinel-terminated input buffer whose first byte classifies to a
  class other than the catch-all class, the loop of \<^verbatim>\<open>try_parse_current_token\<close> ends:
  the call returns, and the block at \<^verbatim>\<open>transition\<close> has run at most as often as the
  longest spelling of the lexicon has bytes, which is 4.
\<close>

theorem loop_terminates:
  assumes "sentinel_terminated mem (lexer_input l)"
    and "character_class (mem ! lexer_input l) \<noteq> other_character_class"
  shows "\<exists>l' v. try_parse_current_token mem l = Inr (True, l', v) \<and>
      iterations v \<le> Max (length ` set spellings) \<and> Max (length ` set spellings) = 4"
proof -
  from try_parse_sentinel [OF assms]
  obtain n t v where
    "try_parse_current_token mem l = Inr (True, written l t (lexer_input l + n), v)"
    "iterations v \<le> 3"
    by blast
  then show ?thesis
    by (intro exI [of _ "written l t (lexer_input l + n)"] exI [of _ v])
      (simp add: longest_spelling)
qed

theorem loop_terminates_witness:
  "sentinel_terminated (''>>>>>>>>'' @ [CHR 0x00]) (lexer_input (lexer_at 1)) \<and>
   character_class ((''>>>>>>>>'' @ [CHR 0x00]) ! lexer_input (lexer_at 1)) \<noteq>
     other_character_class \<and>
   (\<exists>l' v. try_parse_current_token (''>>>>>>>>'' @ [CHR 0x00]) (lexer_at 1) = Inr (True, l', v) \<and>
      iterations v \<le> Max (length ` set spellings) \<and> Max (length ` set spellings) = 4)"
proof -
  have h1: "sentinel_terminated (''>>>>>>>>'' @ [CHR 0x00]) (lexer_input (lexer_at 1))"
    by (simp add: sentinel_terminated_def lexer_at_def character_class_eq class_defs)
  have h2: "character_class ((''>>>>>>>>'' @ [CHR 0x00]) ! lexer_input (lexer_at 1)) \<noteq>
     other_character_class"
    by (simp add: lexer_at_def character_class_eq class_defs)
  from h1 h2 loop_terminates [OF h1 h2] show ?thesis by (intro conjI)
qed

text \<open>
  Claim C10. For every input that satisfies the precondition (the first byte classifies to
  a class other than the catch-all class, and a sentinel terminates the buffer),
  \<^verbatim>\<open>try_parse_current_token\<close> returns \<^verbatim>\<open>true\<close>, having written a token kind of
  the token table and set both the input cursor of the lexer and the end of the token to
  one past the last consumed byte: the bytes from the old cursor to the new one spell the
  token. No call returns \<^verbatim>\<open>false\<close>, whatever its input.
\<close>

theorem always_returns_true:
  fixes l :: "'a lexer_scheme"
  assumes "sentinel_terminated mem (lexer_input l)"
    and "character_class (mem ! lexer_input l) \<noteq> other_character_class"
  shows "\<exists>l' v. try_parse_current_token mem l = Inr (True, l', v) \<and>
      tok_type (lexer_last_token l') \<in> set state_to_token \<and>
      lexer_input l' = input v \<and> tok_end (lexer_last_token l') = input v \<and>
      lexer_input l < input v \<and>
      (take (input v - lexer_input l) (drop (lexer_input l) mem),
       tok_type (lexer_last_token l')) \<in> set lexicon \<and>
      (\<forall>mem2 (l2 :: 'a lexer_scheme) b l2' v2.
         try_parse_current_token mem2 l2 = Inr (b, l2', v2) \<longrightarrow> b)"
proof -
  from try_parse_sentinel [OF assms]
  obtain n t v where t: "t < 28"
    and run: "try_parse_current_token mem l = Inr (True, written l t (lexer_input l + n), v)"
    and lx: "lexicon ! t = (take n (drop (lexer_input l) mem), state_to_token ! t)"
    and n: "0 < n" and v: "input v = lexer_input l + n"
    by blast
  have "state_to_token ! t \<in> set state_to_token"
    using t table_lengths(1) by simp
  moreover have "(take n (drop (lexer_input l) mem), state_to_token ! t) \<in> set lexicon"
    using t table_lengths(3) lx by (metis nth_mem)
  moreover have "b" if "try_parse_current_token mem2 l2 = Inr (b, l2', v2)"
    for mem2 and l2 :: "'a lexer_scheme" and b l2' v2
    using try_parse_safe [of mem2 l2] that by (simp add: safe_def)
  ultimately show ?thesis
    using run n v
    by (intro exI [of _ "written l t (lexer_input l + n)"] exI [of _ v]) auto
qed

theorem always_returns_true_witness:
  "sentinel_terminated (''x||=y'' @ [CHR 0x00]) (lexer_input (lexer_at 1)) \<and>
   character_class ((''x||=y'' @ [CHR 0x00]) ! lexer_input (lexer_at 1)) \<noteq>
     other_character_class \<and>
   (\<exists>l' v. try_parse_current_token (''x||=y'' @ [CHR 0x00]) (lexer_at 1) = Inr (True, l', v) \<and>
      tok_type (lexer_last_token l') \<in> set state_to_token \<and>
      lexer_input l' = input v \<and> tok_end (lexer_last_token l') = input v \<and>
      lexer_input (lexer_at 1) < input v \<and>
      (take (input v - lexer_input (lexer_at 1))
         (drop (lexer_input (lexer_at 1)) (''x||=y'' @ [CHR 0x00])),
       tok_type (lexer_last_token l')) \<in> set lexicon \<and>
      (\<forall>mem2 (l2 :: lexer) b l2' v2.
         try_parse_current_token mem2 l2 = Inr (b, l2', v2) \<longrightarrow> b))"
proof -
  have h1: "sentinel_terminated (''x||=y'' @ [CHR 0x00]) (lexer_input (lexer_at 1))"
    by (simp add: sentinel_terminated_def lexer_at_def character_class_eq class_defs)
  have h2: "character_class ((''x||=y'' @ [CHR 0x00]) ! lexer_input (lexer_at 1)) \<noteq>
     other_character_class"
    by (simp add: lexer_at_def character_class_eq class_defs)
  from h1 h2 always_returns_true [OF h1 h2] show ?thesis by (intro conjI)
qed

section \<open>Retraction and exhaustiveness\<close>

text \<open>
  Claim C2. For every entry \<open>E\<close> of the lexicon that is a proper prefix of a longer entry,
  a call on an input that holds \<open>E\<close> followed by a byte that does not extend \<open>E\<close> returns the
  token kind of \<open>E\<close> with length \<open>|E|\<close>, and the cursor after the call is one past \<open>E\<close>: the
  byte after \<open>E\<close> has been read (the block at \<^verbatim>\<open>transition\<close> has run \<open>|E|\<close> times) and
  pushed back. The state that resolves the token is the state held before the failed
  transition, the state of \<open>E\<close>, and never the retract sentinel.
\<close>

theorem retract_correctness:
  assumes "(E, kind) \<in> set lexicon"
    and "E' \<in> set spellings" "strict_prefix E E'"
    and "drop (lexer_input l) mem = E @ b # rest"
    and "\<not> extends E b"
  shows "\<exists>l' v. try_parse_current_token mem l = Inr (True, l', v) \<and>
      tok_type (lexer_last_token l') = kind \<and>
      lexer_input l' = lexer_input l + length E \<and>
      tok_end (lexer_last_token l') = lexer_input l + length E \<and>
      input v = lexer_input l + length E \<and> iterations v = length E \<and>
      old_state v = Some (new_state v) \<and> new_state v \<noteq> retract \<and>
      lexicon ! unat (new_state v) = (E, kind)"
proof -
  from try_parse_entry [OF assms(1,4,5)]
  obtain t v where t: "t < 28" and lx: "lexicon ! t = (E, kind)"
    and run: "try_parse_current_token mem l =
        Inr (True, written l t (lexer_input l + length E), v)"
    and kind: "state_to_token ! t = kind"
    and rest: "input v = lexer_input l + length E" "new_state v \<noteq> retract"
      "if t < 14
       then old_state v = Some (new_state v) \<and> unat (new_state v) = t \<and>
            iterations v = length E
       else Suc (iterations v) = length E"
    by blast
  from assms(3) obtain c zs where E': "E' = E @ c # zs"
    by (rule strict_prefixE')
  then have "prefix (E @ [c]) E'" by (simp add: prefix_def)
  with assms(2) have ext: "E @ [c] \<in> set spellings"
    using spellings_prefix_closed by blast
  have t14: "t < 14"
  proof (rule ccontr)
    assume "\<not> t < 14"
    then have "spellings ! t @ [c] \<notin> set spellings"
      using done_maximal [of t c] t by simp
    moreover have "spellings ! t = E"
      using lexicon_nth [OF t] lx by simp
    ultimately show False using ext by simp
  qed
  with run kind rest lx show ?thesis
    by (intro exI [of _ "written l t (lexer_input l + length E)"] exI [of _ v]) simp
qed

theorem retract_correctness_witness:
  "(''>>'', token_greater_greater) \<in> set lexicon \<and> ''>>>='' \<in> set spellings \<and>
   strict_prefix ''>>'' ''>>>='' \<and>
   drop (lexer_input (lexer_at 2)) ''a.>>!=b'' = ''>>'' @ CHR ''!'' # ''=b'' \<and>
   \<not> extends ''>>'' CHR ''!'' \<and>
   (\<exists>l' v. try_parse_current_token ''a.>>!=b'' (lexer_at 2) = Inr (True, l', v) \<and>
      tok_type (lexer_last_token l') = token_greater_greater \<and>
      lexer_input l' = lexer_input (lexer_at 2) + length ''>>'' \<and>
      tok_end (lexer_last_token l') = lexer_input (lexer_at 2) + length ''>>'' \<and>
      input v = lexer_input (lexer_at 2) + length ''>>'' \<and> iterations v = length ''>>'' \<and>
      old_state v = Some (new_state v) \<and> new_state v \<noteq> retract \<and>
      lexicon ! unat (new_state v) = (''>>'', token_greater_greater))"
proof -
  have h1: "(''>>'', token_greater_greater) \<in> set lexicon"
    by (simp add: lexicon_def)
  have h2: "''>>>='' \<in> set spellings"
    by (simp add: in_spellings)
  have h3: "strict_prefix ''>>'' ''>>>=''"
    by (simp add: strict_prefix_def)
  have h4: "drop (lexer_input (lexer_at 2)) ''a.>>!=b'' = ''>>'' @ CHR ''!'' # ''=b''"
    by (simp add: lexer_at_def)
  have h5: "\<not> extends ''>>'' CHR ''!''"
    by (simp add: extends_def spellings_eq)
  from h1 h2 h3 h4 h5 retract_correctness [OF h1 h2 h3 h4 h5] show ?thesis
    by (intro conjI)
qed

text \<open>
  Claim C7. For every entry of the lexicon (the single-character operators and the
  multi-character forms up to \<^verbatim>\<open>>>>=\<close>), a call on an input that holds the entry
  followed by a byte that does not extend it returns the token kind of that entry, with
  the length of the entry.
\<close>

theorem lexicon_exhaustive:
  assumes "(E, kind) \<in> set lexicon"
    and "drop (lexer_input l) mem = E @ b # rest"
    and "\<not> extends E b"
  shows "\<exists>l' v. try_parse_current_token mem l = Inr (True, l', v) \<and>
      tok_type (lexer_last_token l') = kind \<and>
      lexer_input l' = lexer_input l + length E \<and>
      tok_end (lexer_last_token l') = lexer_input l + length E"
proof -
  from try_parse_entry [OF assms]
  obtain t v where
    "try_parse_current_token mem l = Inr (True, written l t (lexer_input l + length E), v)"
    "state_to_token ! t = kind"
    by blast
  then show ?thesis
    by (intro exI [of _ "written l t (lexer_input l + length E)"] exI [of _ v]) simp
qed

theorem lexicon_exhaustive_witness:
  "((''!='', token_bang_equal) \<in> set lexicon \<and>
    drop (lexer_input (lexer_at 0)) ''!=!'' = ''!='' @ CHR ''!'' # [] \<and>
    \<not> extends ''!='' CHR ''!'' \<and>
    (\<exists>l' v. try_parse_current_token ''!=!'' (lexer_at 0) = Inr (True, l', v) \<and>
       tok_type (lexer_last_token l') = token_bang_equal \<and>
       lexer_input l' = lexer_input (lexer_at 0) + length ''!='' \<and>
       tok_end (lexer_last_token l') = lexer_input (lexer_at 0) + length ''!='')) \<and>
   ((''>>>='', token_greater_greater_greater_equal) \<in> set lexicon \<and>
    drop (lexer_input (lexer_at 1)) ''(>>>=='' = ''>>>='' @ CHR ''='' # [] \<and>
    \<not> extends ''>>>='' CHR ''='' \<and>
    (\<exists>l' v. try_parse_current_token ''(>>>=='' (lexer_at 1) = Inr (True, l', v) \<and>
       tok_type (lexer_last_token l') = token_greater_greater_greater_equal \<and>
       lexer_input l' = lexer_input (lexer_at 1) + length ''>>>='' \<and>
       tok_end (lexer_last_token l') = lexer_input (lexer_at 1) + length ''>>>=''))"
proof -
  have a1: "(''!='', token_bang_equal) \<in> set lexicon"
    by (simp add: lexicon_def)
  have a2: "drop (lexer_input (lexer_at 0)) ''!=!'' = ''!='' @ CHR ''!'' # []"
    by (simp add: lexer_at_def)
  have a3: "\<not> extends ''!='' CHR ''!''"
    by (simp add: extends_def spellings_eq)
  have b1: "(''>>>='', token_greater_greater_greater_equal) \<in> set lexicon"
    by (simp add: lexicon_def)
  have b2: "drop (lexer_input (lexer_at 1)) ''(>>>=='' = ''>>>='' @ CHR ''='' # []"
    by (simp add: lexer_at_def)
  have b3: "\<not> extends ''>>>='' CHR ''=''"
    by (simp add: extends_def spellings_eq)
  from a1 a2 a3 b1 b2 b3 lexicon_exhaustive [OF a1 a2 a3] lexicon_exhaustive [OF b1 b2 b3]
  show ?thesis by (intro conjI)
qed

section \<open>The tree invariant\<close>

text \<open>
  Claim C5. The state graph of the automaton after the initial byte is a tree: it has no
  cycle, no two distinct pairs of a byte class and a current state yield the same target
  state other than the retract sentinel, and every possibly-incomplete state and every
  complete state is the target of exactly one transition. The byte classes are the nine
  classes of \<^verbatim>\<open>enum character_class\<close>; the tenth row of the table belongs to no
  class and is never read.
\<close>

theorem state_graph_tree:
  "acyclic state_graph \<and>
   (\<forall>c s c' s'. c < character_class_count \<and> s < input_state_count \<and>
      c' < character_class_count \<and> s' < input_state_count \<and>
      transition_table ! c ! s = transition_table ! c' ! s' \<and>
      transition_table ! c ! s \<noteq> retract \<longrightarrow> c = c' \<and> s = s') \<and>
   (\<forall>t \<in> set (continuation_states @ done_states).
      \<exists>!cs. fst cs < character_class_count \<and> snd cs < input_state_count \<and>
        transition_table ! fst cs ! snd cs = t)"
proof (intro conjI allI ballI impI)
  show "acyclic state_graph" by (rule state_graph_acyclic)
next
  fix c s c' s'
  assume a: "c < character_class_count \<and> s < input_state_count \<and>
      c' < character_class_count \<and> s' < input_state_count \<and>
      transition_table ! c ! s = transition_table ! c' ! s' \<and>
      transition_table ! c ! s \<noteq> retract"
  then have "(c, s, transition_table ! c ! s) \<in> set transitions"
    "(c', s', transition_table ! c ! s) \<in> set transitions"
    unfolding in_transitions by auto
  then show "c = c'" "s = s'" using transitions_inj by blast+
next
  fix t assume "t \<in> set (continuation_states @ done_states)"
  then have "t \<in> set (map (\<lambda>(c, s, t). t) transitions)"
    by (simp only: targets_eq)
  then obtain c s where cs: "(c, s, t) \<in> set transitions" by auto
  show "\<exists>!cs. fst cs < character_class_count \<and> snd cs < input_state_count \<and>
        transition_table ! fst cs ! snd cs = t"
  proof (rule ex1I [of _ "(c, s)"])
    show "fst (c, s) < character_class_count \<and> snd (c, s) < input_state_count \<and>
        transition_table ! fst (c, s) ! snd (c, s) = t"
      using cs by (simp add: in_transitions)
  next
    fix cs'
    assume "fst cs' < character_class_count \<and> snd cs' < input_state_count \<and>
        transition_table ! fst cs' ! snd cs' = t"
    then have "(fst cs', snd cs', t) \<in> set transitions"
      using cs unfolding in_transitions by auto
    with cs transitions_inj have "fst cs' = c \<and> snd cs' = s" by blast
    then show "cs' = (c, s)" by (simp add: prod_eq_iff)
  qed
qed

theorem state_graph_tree_witness:
  "(5 < character_class_count \<and> 11 < input_state_count \<and>
    5 < character_class_count \<and> 11 < input_state_count \<and>
    transition_table ! 5 ! 11 = transition_table ! 5 ! 11 \<and>
    transition_table ! 5 ! 11 \<noteq> retract) \<and>
   greater_greater_greater \<in> set (continuation_states @ done_states) \<and>
   (\<exists>!cs. fst cs < character_class_count \<and> snd cs < input_state_count \<and>
      transition_table ! fst cs ! snd cs = greater_greater_greater) \<and>
   transition_table ! 5 ! 11 = greater_greater_greater \<and>
   acyclic state_graph"
proof -
  have h1: "5 < character_class_count \<and> 11 < input_state_count \<and>
    5 < character_class_count \<and> 11 < input_state_count \<and>
    transition_table ! 5 ! 11 = transition_table ! 5 ! 11 \<and>
    transition_table ! 5 ! 11 \<noteq> retract"
    by (simp add: character_class_count_def input_state_count_def transition_table_eq
        retract_def state_data_bits_def)
  have h2: "greater_greater_greater \<in> set (continuation_states @ done_states)"
    by (simp add: continuation_states_def)
  have h3: "transition_table ! 5 ! 11 = greater_greater_greater"
    by (simp add: transition_table_eq greater_greater_greater_def state_data_bits_def)
  from state_graph_tree have
    "\<forall>t \<in> set (continuation_states @ done_states).
      \<exists>!cs. fst cs < character_class_count \<and> snd cs < input_state_count \<and>
        transition_table ! fst cs ! snd cs = t"
    and "acyclic state_graph"
    by blast+
  with h1 h2 h3 show ?thesis by blast
qed

section \<open>Determinism\<close>

text \<open>
  Claim C9. The lookup algorithm is deterministic: what a call reports (the returned
  \<^verbatim>\<open>bool\<close>, the token kind, the end of the token and the input cursor, or the
  error) depends on the buffer contents and the starting offset only, not on anything
  else the lexer holds; and no call reads \<^verbatim>\<open>old_state\<close> before it is assigned,
  which would make the result depend on an indeterminate value.
\<close>

theorem lookup_deterministic:
  assumes "lexer_input l1 = lexer_input l2"
  shows "observable (try_parse_current_token mem l1) =
         observable (try_parse_current_token mem l2) \<and>
         try_parse_current_token mem l1 \<noteq> Inl Uninitialized_old_state"
proof (cases "lexer_input l1 < length mem")
  case False
  with assms try_parse_no_assert(3) [of mem l1] show ?thesis
    by (simp add: try_parse_current_token_def observable_def)
next
  case True
  let ?s = "character_class (mem ! lexer_input l1)"
  let ?v = "\<lparr>input = lexer_input l1 + 1, new_state = ?s, old_state = None, iterations = 0\<rparr>"
  from transition_dispatch_observable [of mem l1 ?v l2]
  have "observable (try_parse_current_token mem l1) =
      observable (try_parse_current_token mem l2)"
    using True assms class_range(2) by (simp add: try_parse_current_token_def Let_def)
  with try_parse_no_assert(3) [of mem l1] show ?thesis by simp
qed

theorem lookup_deterministic_witness:
  "lexer_input (lexer_at 2) =
     lexer_input \<lparr>lexer_input = 2, lexer_last_token = \<lparr>tok_type = token_plus, tok_end = 7\<rparr>\<rparr> \<and>
   observable (try_parse_current_token (''a &&= b'' @ [CHR 0x00]) (lexer_at 2)) =
     observable (try_parse_current_token (''a &&= b'' @ [CHR 0x00])
       \<lparr>lexer_input = 2, lexer_last_token = \<lparr>tok_type = token_plus, tok_end = 7\<rparr>\<rparr>) \<and>
   try_parse_current_token (''a &&= b'' @ [CHR 0x00]) (lexer_at 2) \<noteq>
     Inl Uninitialized_old_state"
proof -
  have h: "lexer_input (lexer_at 2) =
     lexer_input \<lparr>lexer_input = 2, lexer_last_token = \<lparr>tok_type = token_plus, tok_end = 7\<rparr>\<rparr>"
    by (simp add: lexer_at_def)
  from lookup_deterministic [OF h, of "''a &&= b'' @ [CHR 0x00]"] h show ?thesis
    by (intro conjI) simp_all
qed

section \<open>A first byte of the catch-all class\<close>

text \<open>
  The class of such a byte has the value of the state \<^verbatim>\<open>bang_equal\<close>. It passes the
  test \<^verbatim>\<open>is_initial_state_terminal\<close>, and \<^verbatim>\<open>dispatch\<close> sends it on to
  \<^verbatim>\<open>transition\<close>, since its dispatcher bits are 0: the call goes on as if it had read
  \<^verbatim>\<open>!=\<close>.
\<close>

lemma catch_all_class:
  "is_initial_state_terminal (character_class c) \<longleftrightarrow>
   character_class c = other_character_class"
  by (simp add: character_class_eq class_defs is_initial_state_terminal_def bang_equal_def
      state_data_bits_def word_le_nat_alt)

lemma other_is_initial_terminal: "is_initial_state_terminal other_character_class"
  by (simp add: class_defs is_initial_state_terminal_def bang_equal_def state_data_bits_def)

lemma try_parse_catch_all:
  assumes "lexer_input l < length mem"
    and "character_class (mem ! lexer_input l) = other_character_class"
  shows "try_parse_current_token mem l =
      (if lexer_input l + 1 < length mem then
         if mem ! (lexer_input l + 1) = CHR ''='' then
           Inr (True,
                l\<lparr>lexer_last_token := (lexer_last_token l)
                    \<lparr>tok_type := token_bang_equal_equal, tok_end := lexer_input l + 2\<rparr>,
                  lexer_input := lexer_input l + 2\<rparr>,
                \<lparr>input = lexer_input l + 2, new_state = done_bang_equal_equal,
                 old_state = Some bang_equal, iterations = 1\<rparr>)
         else
           Inr (True,
                l\<lparr>lexer_last_token := (lexer_last_token l)
                    \<lparr>tok_type := token_bang_equal, tok_end := lexer_input l + 1\<rparr>,
                  lexer_input := lexer_input l + 1\<rparr>,
                \<lparr>input = lexer_input l + 1, new_state = bang_equal,
                 old_state = Some bang_equal, iterations = 1\<rparr>)
       else Inl Out_of_bounds)"
proof -
  let ?p = "lexer_input l"
  let ?v = "\<lparr>input = Suc ?p, new_state = 8, old_state = None, iterations = 0\<rparr>"
  have start: "try_parse_current_token mem l = transition mem l ?v"
    using assms
    by (simp add: try_parse_current_token_def other_character_class_def retract_def
        is_initial_state_terminal_def bang_equal_def state_data_bits_def dispatch.simps)
  show ?thesis
  proof (cases "Suc ?p < length mem")
    case False
    then show ?thesis
      by (simp add: start transition.simps)
  next
    case True
    have s: "unat (8 :: u8) < 14" by simp
    note entry = table_entry_eq [where s = "8 :: u8", simplified]
    show ?thesis
      using True
      by (simp add: start transition_unfold [OF True s] entry dispatch.simps Let_def
          is_terminal_state_def greater_greater_greater_def state_data_bits_def
          done_unique_terminal_def done_retract_def state_data_mask_def state_to_token_def
          done_bang_equal_equal_def bang_equal_def)
  qed
qed

text \<open>
  Claim C3, as the code has it. If the starting state obtained by classifying the first
  byte is an initial terminal state (which happens only when the first byte classifies to
  the catch-all class), the call does not resolve at once: \<^verbatim>\<open>dispatch\<close> sends the
  state to \<^verbatim>\<open>transition\<close>, which classifies the next byte and makes one transition
  on it, from the state \<^verbatim>\<open>bang_equal\<close>. The call returns \<^verbatim>\<open>bang_equal_equal\<close>
  with length 2 when the next byte is \<^verbatim>\<open>=\<close>, and \<^verbatim>\<open>bang_equal\<close> with length 1
  when it is another byte; where the buffer ends after the first byte, the call reads
  beyond the buffer.
\<close>

theorem initial_terminal_dispatches:
  assumes "lexer_input l < length mem"
    and "is_initial_state_terminal (character_class (mem ! lexer_input l))"
  shows "character_class (mem ! lexer_input l) = other_character_class \<and>
    try_parse_current_token mem l =
      (if lexer_input l + 1 < length mem then
         if mem ! (lexer_input l + 1) = CHR ''='' then
           Inr (True,
                l\<lparr>lexer_last_token := (lexer_last_token l)
                    \<lparr>tok_type := token_bang_equal_equal, tok_end := lexer_input l + 2\<rparr>,
                  lexer_input := lexer_input l + 2\<rparr>,
                \<lparr>input = lexer_input l + 2, new_state = done_bang_equal_equal,
                 old_state = Some bang_equal, iterations = 1\<rparr>)
         else
           Inr (True,
                l\<lparr>lexer_last_token := (lexer_last_token l)
                    \<lparr>tok_type := token_bang_equal, tok_end := lexer_input l + 1\<rparr>,
                  lexer_input := lexer_input l + 1\<rparr>,
                \<lparr>input = lexer_input l + 1, new_state = bang_equal,
                 old_state = Some bang_equal, iterations = 1\<rparr>)
       else Inl Out_of_bounds)"
proof -
  from assms(2) have "character_class (mem ! lexer_input l) = other_character_class"
    by (simp add: catch_all_class)
  with try_parse_catch_all [OF assms(1) this] show ?thesis by simp
qed

theorem initial_terminal_dispatches_witness:
  "lexer_input (lexer_at 1) < length ''a#b'' \<and>
   is_initial_state_terminal (character_class (''a#b'' ! lexer_input (lexer_at 1))) \<and>
   character_class (''a#b'' ! lexer_input (lexer_at 1)) = other_character_class \<and>
   try_parse_current_token ''a#b'' (lexer_at 1) =
     Inr (True,
          \<lparr>lexer_input = 2, lexer_last_token = \<lparr>tok_type = token_bang_equal, tok_end = 2\<rparr>\<rparr>,
          \<lparr>input = 2, new_state = bang_equal, old_state = Some bang_equal, iterations = 1\<rparr>)"
proof -
  have h1: "lexer_input (lexer_at 1) < length ''a#b''"
    by (simp add: lexer_at_def)
  have h2: "is_initial_state_terminal (character_class (''a#b'' ! lexer_input (lexer_at 1)))"
    by (simp add: lexer_at_def character_class_eq other_is_initial_terminal)
  from initial_terminal_dispatches [OF h1 h2] have
    "character_class (''a#b'' ! lexer_input (lexer_at 1)) = other_character_class"
    "try_parse_current_token ''a#b'' (lexer_at 1) =
     Inr (True,
          \<lparr>lexer_input = 2, lexer_last_token = \<lparr>tok_type = token_bang_equal, tok_end = 2\<rparr>\<rparr>,
          \<lparr>input = 2, new_state = bang_equal, old_state = Some bang_equal, iterations = 1\<rparr>)"
    by (simp_all add: lexer_at_def)
  with h1 h2 show ?thesis by (intro conjI)
qed

text \<open>
  The claim as the specification words it (the call resolves at once and returns a token
  of a single byte, without classifying a further byte) fails on \<^verbatim>\<open>A=;\<close>: the
  starting state is an initial terminal state, and the call returns a token of two bytes
  after one round of the loop.
\<close>

theorem initial_terminal_counterexample:
  "is_initial_state_terminal (character_class (''A=;'' ! lexer_input (lexer_at 0))) \<and>
   try_parse_current_token ''A=;'' (lexer_at 0) =
     Inr (True,
          \<lparr>lexer_input = 2,
             lexer_last_token = \<lparr>tok_type = token_bang_equal_equal, tok_end = 2\<rparr>\<rparr>,
          \<lparr>input = 2, new_state = done_bang_equal_equal, old_state = Some bang_equal,
             iterations = 1\<rparr>)"
proof -
  have h1: "lexer_input (lexer_at 0) < length ''A=;''"
    by (simp add: lexer_at_def)
  have h2: "character_class (''A=;'' ! lexer_input (lexer_at 0)) = other_character_class"
    by (simp add: lexer_at_def character_class_eq)
  have h3: "is_initial_state_terminal (character_class (''A=;'' ! lexer_input (lexer_at 0)))"
    by (simp add: h2 other_is_initial_terminal)
  from try_parse_catch_all [OF h1 h2] have
    "try_parse_current_token ''A=;'' (lexer_at 0) =
     Inr (True,
          \<lparr>lexer_input = 2,
             lexer_last_token = \<lparr>tok_type = token_bang_equal_equal, tok_end = 2\<rparr>\<rparr>,
          \<lparr>input = 2, new_state = done_bang_equal_equal, old_state = Some bang_equal,
             iterations = 1\<rparr>)"
    by (simp add: lexer_at_def)
  with h3 show ?thesis by (intro conjI)
qed

text \<open>
  Claim C4, as the code has it. The assertion of the driver compares the starting state
  with the retract sentinel, whose value is 32, and classification yields the values 0 to
  8 only: the condition of the assertion holds for every first byte, those of the
  catch-all class included, so that no call fails this assertion, and a first byte of
  the catch-all class goes undetected.
\<close>

theorem assertion_never_fires:
  "unat (character_class c) \<le> 8 \<and> unat retract = 32 \<and> character_class c \<noteq> retract \<and>
   try_parse_current_token mem l \<noteq> Inl Assert_new_state_not_retract"
proof -
  have "unat (character_class c) \<le> 8"
    by (simp add: character_class_eq class_defs)
  moreover have "unat retract = 32"
    by (simp add: retract_def state_data_bits_def)
  ultimately show ?thesis
    using class_range(2) [of c] try_parse_no_assert(1) [of mem l] by simp
qed

text \<open>
  The claim as the specification words it (the condition of the assertion is false exactly
  when the class of the first byte is the catch-all class) fails on \<^verbatim>\<open>A;\<close>: the
  class of the first byte is the catch-all class, the condition of the assertion is true,
  and the call returns a token.
\<close>

theorem assertion_counterexample:
  "character_class (''A;'' ! lexer_input (lexer_at 0)) = other_character_class \<and>
   character_class (''A;'' ! lexer_input (lexer_at 0)) \<noteq> retract \<and>
   try_parse_current_token ''A;'' (lexer_at 0) =
     Inr (True,
          \<lparr>lexer_input = 1, lexer_last_token = \<lparr>tok_type = token_bang_equal, tok_end = 1\<rparr>\<rparr>,
          \<lparr>input = 1, new_state = bang_equal, old_state = Some bang_equal, iterations = 1\<rparr>)"
proof -
  have h1: "lexer_input (lexer_at 0) < length ''A;''"
    by (simp add: lexer_at_def)
  have h2: "character_class (''A;'' ! lexer_input (lexer_at 0)) = other_character_class"
    by (simp add: lexer_at_def character_class_eq)
  from try_parse_catch_all [OF h1 h2] have
    "try_parse_current_token ''A;'' (lexer_at 0) =
     Inr (True,
          \<lparr>lexer_input = 1, lexer_last_token = \<lparr>tok_type = token_bang_equal, tok_end = 1\<rparr>\<rparr>,
          \<lparr>input = 1, new_state = bang_equal, old_state = Some bang_equal, iterations = 1\<rparr>)"
    by (simp add: lexer_at_def)
  with h2 class_range(2) [of "''A;'' ! lexer_input (lexer_at 0)"] show ?thesis
    by (intro conjI)
qed

end
